theory Spec2Isabelle
  imports Complex_Main "HOL-Library.Signed_Division" "HOL-Library.Word"
begin

unbundle bit_operations_syntax

section \<open>The subtitle renderer of omxplayer (SubtitleRenderer.cpp)\<close>

text \<open>
  A shallow embedding of \<^verbatim>\<open>SubtitleRenderer.cpp\<close>: the tag parser
  (\<^verbatim>\<open>parse_lines\<close>, \<^verbatim>\<open>hex2int\<close>), the canvas geometry computed by the
  constructor, the two \<^verbatim>\<open>make_subtitle_image\<close> overloads and the frame life cycle
  (\<^verbatim>\<open>prepare\<close>, \<^verbatim>\<open>unprepare\<close>, \<^verbatim>\<open>show_next\<close>, \<^verbatim>\<open>hide\<close>).

  C++ \<^verbatim>\<open>int\<close> is modelled as \<^typ>\<open>int\<close>; \<^verbatim>\<open>/\<close> and \<^verbatim>\<open>%\<close> on it are
  \<^const>\<open>signed_divide\<close> and \<^const>\<open>signed_modulo\<close>, which truncate towards zero as C++
  does. Where the constructor's arithmetic can leave the 32-bit range the wrap-around is
  written out (\<open>wrap32\<close>). Strings are byte strings (\<^typ>\<open>string\<close>).
\<close>

subsection \<open>Characters and C strings\<close>

text \<open>The backslash, which cannot be written inside a string literal.\<close>

abbreviation BSL :: char where
  "BSL \<equiv> CHR 0x5C"

text \<open>
  \<^verbatim>\<open>hex[i]\<close> on a \<^verbatim>\<open>const char *\<close> obtained from \<^verbatim>\<open>c_str()\<close>: the bytes of the
  string, then the terminating NUL; a read past the terminator is out of bounds
  (\<open>None\<close>). The byte is promoted to \<^verbatim>\<open>int\<close> as an unsigned value (plain
  \<^verbatim>\<open>char\<close> is unsigned on the ARM targets of the player; for the bytes
  \<^verbatim>\<open>0-9a-f\<close> that the callers pass the signedness makes no difference).
\<close>

definition c_str_at :: "string \<Rightarrow> nat \<Rightarrow> int option" where
  "c_str_at s i =
     (if i < length s then Some (of_char (s ! i))
      else if i = length s then Some 0
      else None)"

subsection \<open>hex2int\<close>

text \<open>
  \<^verbatim>\<open>
  int r = 0;
  for(int i = 0, f = 20; i < 6; i++, f -= 4)
      if(hex[i] >= 'a') r += (hex[i] - 87) << f;
      else              r += (hex[i] - 48) << f;
  return r;
  \<close>
  The loop, with its three variables. \<^verbatim>\<open><<\<close> is \<^const>\<open>push_bit\<close>; the sum of six
  terms below \<open>208 * 2 ^ 20\<close> stays inside \<^verbatim>\<open>int\<close>.
\<close>

function hex2int_loop :: "string \<Rightarrow> int \<Rightarrow> int \<Rightarrow> int \<Rightarrow> int option" where
  "hex2int_loop hex i f r =
     (if i < 6 then
        (case c_str_at hex (nat i) of
           None \<Rightarrow> None
         | Some c \<Rightarrow>
             if c \<ge> 97 then hex2int_loop hex (i + 1) (f - 4) (r + push_bit (nat f) (c - 87))
             else hex2int_loop hex (i + 1) (f - 4) (r + push_bit (nat f) (c - 48)))
      else Some r)"
  by pat_completeness auto
termination
  by (relation "measure (\<lambda>(hex, i, f, r). nat (6 - i))") auto

definition hex2int :: "string \<Rightarrow> int option" where
  "hex2int hex = hex2int_loop hex 0 20 0"

text \<open>
  The specification's side of the round trip, written from its words: a lowercase
  hexadecimal digit, the value it stands for, and the formatting of a 24-bit integer as
  six lowercase hexadecimal digits, most significant first.
\<close>

definition is_lower_hex :: "char \<Rightarrow> bool" where
  "is_lower_hex c =
     ((48 \<le> (of_char c :: int) \<and> (of_char c :: int) \<le> 57) \<or>
      (97 \<le> (of_char c :: int) \<and> (of_char c :: int) \<le> 102))"

definition hex_digit_value :: "char \<Rightarrow> int" where
  "hex_digit_value c = (if (of_char c :: int) \<ge> 97 then of_char c - 87 else of_char c - 48)"

definition hex_digit :: "int \<Rightarrow> char" where
  "hex_digit v = (if v < 10 then char_of (48 + v) else char_of (87 + v))"

definition nibbles6 :: "int \<Rightarrow> int list" where
  "nibbles6 n =
     [n div 1048576 mod 16, n div 65536 mod 16, n div 4096 mod 16,
      n div 256 mod 16, n div 16 mod 16, n mod 16]"

definition format_hex6 :: "int \<Rightarrow> string" where
  "format_hex6 n = map hex_digit (nibbles6 n)"


subsection \<open>String helpers of the standard library and of Boost\<close>

text \<open>
  \<^verbatim>\<open>boost::algorithm::trim\<close> removes leading and trailing characters for which
  \<^verbatim>\<open>std::isspace\<close> holds in the classic locale: the space and the bytes 9 to 13.
\<close>

definition is_space :: "char \<Rightarrow> bool" where
  "is_space c = ((of_char c :: int) = 32 \<or> (9 \<le> (of_char c :: int) \<and> (of_char c :: int) \<le> 13))"

definition trim :: "string \<Rightarrow> string" where
  "trim s = rev (dropWhile is_space (rev (dropWhile is_space s)))"

text \<open>\<^verbatim>\<open>boost::algorithm::to_lower\<close> in the classic locale: \<^verbatim>\<open>A-Z\<close> to \<^verbatim>\<open>a-z\<close>.\<close>

definition to_lower_char :: "char \<Rightarrow> char" where
  "to_lower_char c =
     (if 65 \<le> (of_char c :: int) \<and> (of_char c :: int) \<le> 90
      then char_of ((of_char c :: int) + 32) else c)"

definition to_lower :: "string \<Rightarrow> string" where
  "to_lower s = map to_lower_char s"

text \<open>
  \<^verbatim>\<open>std::string::substr(pos, count)\<close>: throws \<^verbatim>\<open>std::out_of_range\<close> when
  \<^verbatim>\<open>pos > size()\<close> (\<open>None\<close>), and otherwise returns the
  \<^verbatim>\<open>min(count, size() - pos)\<close> characters from \<^verbatim>\<open>pos\<close>. An \<^verbatim>\<open>int\<close> count is converted to the unsigned
  \<^verbatim>\<open>size_t\<close> (32 bits on the player's targets), so that \<^verbatim>\<open>-1 - old_pos\<close> is a
  very large count.
\<close>

definition size_t :: "int \<Rightarrow> nat" where
  "size_t n = nat (n mod 2 ^ 32)"

definition substr :: "string \<Rightarrow> nat \<Rightarrow> nat \<Rightarrow> string option" where
  "substr s pos n =
     (if pos > length s then None
      else if n \<ge> length s - pos then Some (drop pos s)
      else Some (take n (drop pos s)))"

text \<open>
  What a function taking a \<^verbatim>\<open>const char *\<close> sees of a \<^verbatim>\<open>std::string\<close>: the
  bytes before the first NUL.
\<close>

definition c_str :: "string \<Rightarrow> string" where
  "c_str s = takeWhile (\<lambda>c. c \<noteq> CHR 0x00) s"

subsection \<open>The three regular expressions\<close>

text \<open>
  Modelled from the spec: the class \<^verbatim>\<open>CRegExp\<close> of \<^verbatim>\<open>utils/RegExp.h\<close>, a
  wrapper of PCRE of which only the calls are in \<^verbatim>\<open>SubtitleRenderer.cpp\<close>. The
  specification asks for the exact match semantics of the three patterns that the
  constructor compiles (caseless, with \<^verbatim>\<open>CRegExp(true)\<close>); the patterns themselves
  are taken from the source. \<^verbatim>\<open>RegFind(str, offset)\<close> returns the position of the
  leftmost match at or after \<^verbatim>\<open>offset\<close> in the C string, or \<^verbatim>\<open>-1\<close> when
  there is none (also for an offset beyond the end of the string), and
  \<^verbatim>\<open>GetMatch(n)\<close> returns the text of group \<^verbatim>\<open>n\<close> of that match. Each
  pattern is modelled by a matcher written for it; \<open>None\<close> stands for
  \<^verbatim>\<open>-1\<close>.
\<close>

text \<open>\<^verbatim>\<open>[^c]*c\<close>: everything up to and including the first \<^verbatim>\<open>c\<close>.\<close>

fun upto_char :: "char \<Rightarrow> string \<Rightarrow> string option" where
  "upto_char c [] = None"
| "upto_char c (x # xs) =
     (if x = c then Some [x] else map_option ((#) x) (upto_char c xs))"

text \<open>
  \<^verbatim>\<open>m_tags\<close> is \<^verbatim>\<open>(<[^>]*>|\{\\[^\}]*\})\<close>: a \<^verbatim>\<open><\<close> up to the next
  \<^verbatim>\<open>>\<close>, or \<^verbatim>\<open>{\\<close> up to the next \<^verbatim>\<open>}\<close>. \<open>tag_at\<close> is the match at the
  start of the string.
\<close>

definition tag_at :: "string \<Rightarrow> string option" where
  "tag_at s =
     (case s of
        [] \<Rightarrow> None
      | x # xs \<Rightarrow>
          if x = CHR ''<'' then map_option ((#) x) (upto_char CHR ''>'' xs)
          else if x = CHR ''{'' then
            (case xs of
               [] \<Rightarrow> None
             | y # ys \<Rightarrow>
                 if y = BSL then map_option (\<lambda>m. x # y # m) (upto_char CHR ''}'' ys)
                 else None)
          else None)"

text \<open>The leftmost match in \<open>s\<close>, whose first character stands at position \<open>k\<close>.\<close>

fun tags_search :: "string \<Rightarrow> nat \<Rightarrow> (nat \<times> string) option" where
  "tags_search [] k = None"
| "tags_search (x # xs) k =
     (case tag_at (x # xs) of
        Some m \<Rightarrow> Some (k, m)
      | None \<Rightarrow> tags_search xs (Suc k))"

text \<open>
  \<^verbatim>\<open>m_tags->RegFind(str, startoffset)\<close> together with the \<^verbatim>\<open>GetMatch(0)\<close> that
  follows it: the position and the text of the match.
\<close>

definition tags_RegFind :: "string \<Rightarrow> int \<Rightarrow> (int \<times> string) option" where
  "tags_RegFind str startoffset =
     (let subject = c_str str in
      if startoffset < 0 \<or> startoffset > int (length subject) then None
      else map_option (\<lambda>(p, m). (int p, m))
             (tags_search (drop (nat startoffset) subject) (nat startoffset)))"

text \<open>A hexadecimal digit of the class \<^verbatim>\<open>[a-f0-9]\<close> under the caseless option.\<close>

definition is_hex_caseless :: "char \<Rightarrow> bool" where
  "is_hex_caseless c = is_lower_hex (to_lower_char c)"

text \<open>
  \<^verbatim>\<open>m_font_color_html\<close> is \<^verbatim>\<open>color[ \t]*=[ \t"']*#?([a-f0-9]{6})\<close>. No character
  of a starred class can start the item after it, so the match at a position is found
  without backtracking. \<open>html_color_at\<close> is group 1 of the match at the start of the
  string.
\<close>

definition html_color_at :: "string \<Rightarrow> string option" where
  "html_color_at s =
     (if to_lower (take 5 s) = ''color'' then
        (case dropWhile (\<lambda>c. c = CHR '' '' \<or> c = CHR 0x09) (drop 5 s) of
           [] \<Rightarrow> None
         | x # s2 \<Rightarrow>
             if x = CHR ''='' then
               (let s3 = dropWhile
                           (\<lambda>c. c = CHR '' '' \<or> c = CHR 0x09 \<or> c = CHR 0x22 \<or> c = CHR 0x27) s2;
                    s4 = (case s3 of [] \<Rightarrow> [] | y # ys \<Rightarrow> if y = CHR ''#'' then ys else s3)
                in if length s4 \<ge> 6 \<and> list_all is_hex_caseless (take 6 s4)
                   then Some (take 6 s4) else None)
             else None)
      else None)"

fun html_color_search :: "string \<Rightarrow> string option" where
  "html_color_search [] = None"
| "html_color_search (x # xs) =
     (case html_color_at (x # xs) of
        Some g \<Rightarrow> Some g
      | None \<Rightarrow> html_color_search xs)"

text \<open>
  \<^verbatim>\<open>m_font_color_html->RegFind(str, startoffset) >= 0\<close> and the \<^verbatim>\<open>GetMatch(1)\<close>
  that follows it.
\<close>

definition html_color_RegFind :: "string \<Rightarrow> nat \<Rightarrow> string option" where
  "html_color_RegFind str startoffset =
     (let subject = c_str str in
      if startoffset > length subject then None
      else html_color_search (drop startoffset subject))"

text \<open>
  \<^verbatim>\<open>m_font_color_curly\<close> is
  \<^verbatim>\<open>^\{\\c&h([a-f0-9]{2})([a-f0-9]{2})([a-f0-9]{2})&\}$\<close>: the whole string
  (\<^verbatim>\<open>$\<close> also matches before a final newline). The result of
  \<^verbatim>\<open>RegFind(str, 0) >= 0\<close> with the groups 1, 2 and 3.
\<close>

definition curly_color_RegFind :: "string \<Rightarrow> (string \<times> string \<times> string) option" where
  "curly_color_RegFind str =
     (let subject = c_str str;
          t = (if length subject = 14 \<and> last subject = CHR 0x0A then butlast subject
               else subject)
      in if length t = 13 \<and> take 2 t = [CHR ''{'', BSL] \<and>
            to_lower_char (t ! 2) = CHR ''c'' \<and> t ! 3 = CHR ''&'' \<and>
            to_lower_char (t ! 4) = CHR ''h'' \<and>
            list_all is_hex_caseless (take 6 (drop 5 t)) \<and> drop 11 t = ''&}''
         then Some (take 2 (drop 5 t), take 2 (drop 7 t), take 2 (drop 9 t))
         else None)"


subsection \<open>The tag parser\<close>

text \<open>
  Modelled from the spec: the three font constants \<^verbatim>\<open>NORMAL_FONT\<close>,
  \<^verbatim>\<open>BOLD_FONT\<close> and \<^verbatim>\<open>ITALIC_FONT\<close> of \<^verbatim>\<open>SubtitleRenderer.h\<close> (the
  specification's styles Normal, Bold and Italic), whose values the source file does
  not show, as a datatype.
\<close>

datatype font_type = NORMAL_FONT | BOLD_FONT | ITALIC_FONT

text \<open>
  The glyph array that \<^verbatim>\<open>cairo_scaled_font_text_to_glyphs\<close> returns for a text, kept
  symbolically: the font and the text it was shaped from and the origin it was shaped
  at. Cairo places the glyphs relative to the origin, so adding a number to the
  \<^verbatim>\<open>x\<close> of every glyph moves the origin by that number. A \<^verbatim>\<open>double\<close> is
  modelled as an exact rational.
\<close>

type_synonym double = rat

record cairo_glyphs =
  g_font :: "font_type option"
  g_text :: string
  g_x :: double
  g_y :: double

text \<open>
  \<^verbatim>\<open>SubtitleText\<close>, built by \<^verbatim>\<open>emplace_back(move(t), font, color)\<close>: the text of a
  run, its font and its colour, and the pointer to its glyph array (\<open>None\<close> is the
  null pointer the constructor leaves).
\<close>

record SubtitleText =
  run_text :: string
  font :: font_type
  color :: int
  glyphs :: "cairo_glyphs option"

definition mk_SubtitleText :: "string \<Rightarrow> font_type \<Rightarrow> int \<Rightarrow> SubtitleText" where
  "mk_SubtitleText t f c = \<lparr>run_text = t, font = f, color = c, glyphs = None\<rparr>"

text \<open>The three local variables \<^verbatim>\<open>bold\<close>, \<^verbatim>\<open>italic\<close> and \<^verbatim>\<open>color\<close>.\<close>

record tag_state =
  bold :: bool
  italic :: bool
  cur_color :: int

definition initial_tag_state :: tag_state where
  "initial_tag_state = \<lparr>bold = False, italic = False, cur_color = - 1\<rparr>"

text \<open>
  The chain of \<^verbatim>\<open>if\<close>/\<^verbatim>\<open>else if\<close> on the lower-cased tag, in the source's order.
  \<open>None\<close> is an out-of-bounds read in \<^verbatim>\<open>hex2int\<close>.
\<close>

definition parse_tag :: "string \<Rightarrow> tag_state \<Rightarrow> tag_state option" where
  "parse_tag fullTag st =
     (if fullTag = ''<b>'' \<or> fullTag = [CHR ''{'', BSL, CHR ''b'', CHR ''1'', CHR ''}'']
        then Some (st\<lparr>bold := True\<rparr>)
      else if (fullTag = ''</b>'' \<or> fullTag = [CHR ''{'', BSL, CHR ''b'', CHR ''0'', CHR ''}''])
              \<and> bold st
        then Some (st\<lparr>bold := False\<rparr>)
      else if fullTag = ''<i>'' \<or> fullTag = [CHR ''{'', BSL, CHR ''i'', CHR ''1'', CHR ''}'']
        then Some (st\<lparr>italic := True\<rparr>)
      else if (fullTag = ''</i>'' \<or> fullTag = [CHR ''{'', BSL, CHR ''i'', CHR ''0'', CHR ''}''])
              \<and> italic st
        then Some (st\<lparr>italic := False\<rparr>)
      else if (fullTag = ''</font>'' \<or> fullTag = [CHR ''{'', BSL, CHR ''c'', CHR ''}''])
              \<and> cur_color st \<noteq> - 1
        then Some (st\<lparr>cur_color := - 1\<rparr>)
      else if substr fullTag 0 5 = Some ''<font'' then
        (case html_color_RegFind fullTag 5 of
           Some h \<Rightarrow> map_option (\<lambda>v. st\<lparr>cur_color := v\<rparr>) (hex2int (c_str h))
         | None \<Rightarrow> Some st)
      else
        (case curly_color_RegFind fullTag of
           Some (g1, g2, g3) \<Rightarrow>
             map_option (\<lambda>v. st\<lparr>cur_color := v\<rparr>) (hex2int (c_str (g3 @ g2 @ g1)))
         | None \<Rightarrow> Some st))"

text \<open>\<^verbatim>\<open>italic ? ITALIC_FONT : (bold ? BOLD_FONT : NORMAL_FONT)\<close>\<close>

definition font_of :: "tag_state \<Rightarrow> font_type" where
  "font_of st = (if italic st then ITALIC_FONT else if bold st then BOLD_FONT else NORMAL_FONT)"


text \<open>
  A match of \<^verbatim>\<open>m_tags\<close> lies at or after the offset, inside the line, and has at
  least two characters: the \<^verbatim>\<open>while\<close> loop of \<^verbatim>\<open>parse_lines\<close> advances.
\<close>

lemma upto_char_length: "upto_char c s = Some m \<Longrightarrow> 0 < length m \<and> length m \<le> length s"
  by (induction s arbitrary: m) (auto split: if_splits)

lemma tag_at_length: "tag_at s = Some m \<Longrightarrow> 2 \<le> length m \<and> length m \<le> length s"
  by (auto simp: tag_at_def split: list.splits if_splits dest!: upto_char_length)

lemma tags_search_bounds:
  "tags_search s k = Some (p, m) \<Longrightarrow> k \<le> p \<and> 2 \<le> length m \<and> p + length m \<le> k + length s"
proof (induction s arbitrary: k)
  case Nil
  then show ?case by simp
next
  case (Cons x xs)
  show ?case
  proof (cases "tag_at (x # xs)")
    case None
    with Cons.prems have "tags_search xs (Suc k) = Some (p, m)" by simp
    from Cons.IH[OF this] show ?thesis by simp
  next
    case (Some m')
    with Cons.prems have "p = k" "m = m'" by simp_all
    with Some tag_at_length[of "x # xs" m] show ?thesis by simp
  qed
qed

lemma c_str_length: "length (c_str s) \<le> length s"
  by (simp add: c_str_def length_takeWhile_le)

lemma tags_RegFind_bounds:
  assumes "tags_RegFind line pos = Some (p, m)"
  shows "pos \<le> p \<and> 2 \<le> length m \<and> p + int (length m) \<le> int (length line)"
proof -
  let ?subject = "c_str line"
  from assms have r: "0 \<le> pos" "pos \<le> int (length ?subject)"
    by (auto simp: tags_RegFind_def Let_def split: if_splits)
  from assms obtain q where
    q: "tags_search (drop (nat pos) ?subject) (nat pos) = Some (q, m)" "p = int q"
    by (auto simp: tags_RegFind_def Let_def split: if_splits)
  from tags_search_bounds[OF q(1)] r c_str_length[of line] q(2) show ?thesis
    by auto
qed

text \<open>
  The body of the \<^verbatim>\<open>for\<close> loop of \<^verbatim>\<open>parse_lines\<close> for one (trimmed) line: the
  \<^verbatim>\<open>while (pos < line_length)\<close> loop with its variables \<^verbatim>\<open>pos\<close> and
  \<^verbatim>\<open>old_pos\<close>, the tag state and the runs emitted so far
  (\<^verbatim>\<open>formatted_lines[i]\<close>). When no tag is found \<^verbatim>\<open>pos\<close> is \<^verbatim>\<open>-1\<close>, the rest of
  the line is emitted and the loop is left by \<^verbatim>\<open>break\<close>. \<open>None\<close> is an
  exception or an out-of-bounds read.
\<close>

function parse_line_loop ::
  "string \<Rightarrow> int \<Rightarrow> int \<Rightarrow> tag_state \<Rightarrow> SubtitleText list \<Rightarrow>
     (tag_state \<times> SubtitleText list) option" where
  "parse_line_loop line pos old_pos st out =
     (if pos < int (length line) then
        (case tags_RegFind line pos of
           None \<Rightarrow>
             (if - 1 \<noteq> old_pos then
                (case substr line (size_t old_pos) (size_t (- 1 - old_pos)) of
                   None \<Rightarrow> None
                 | Some t \<Rightarrow> Some (st, out @ [mk_SubtitleText t (font_of st) (cur_color st)]))
              else Some (st, out))
         | Some (p, m) \<Rightarrow>
             (case (if p \<noteq> old_pos then
                      map_option (\<lambda>t. out @ [mk_SubtitleText t (font_of st) (cur_color st)])
                        (substr line (size_t old_pos) (size_t (p - old_pos)))
                    else Some out) of
                None \<Rightarrow> None
              | Some out' \<Rightarrow>
                  (case parse_tag (to_lower m) st of
                     None \<Rightarrow> None
                   | Some st' \<Rightarrow>
                       parse_line_loop line (p + int (length (to_lower m)))
                         (p + int (length (to_lower m))) st' out')))
      else Some (st, out))"
  by pat_completeness auto
termination
proof (relation "measure (\<lambda>(line, pos, old_pos, st, out). nat (int (length line) - pos))")
  show "wf (measure (\<lambda>(line, pos, old_pos, st, out). nat (int (length line) - pos)))"
    by simp
next
  fix line :: string and pos old_pos :: int and st :: tag_state and out :: "SubtitleText list"
    and x2 :: "int \<times> string" and p :: int and m :: string and out' :: "SubtitleText list"
    and st' :: tag_state
  assume "pos < int (length line)" and "tags_RegFind line pos = Some x2" and "(p, m) = x2"
  then have "tags_RegFind line pos = Some (p, m)" by simp
  from tags_RegFind_bounds[OF this] \<open>pos < int (length line)\<close>
  show "((line, p + int (length (to_lower m)), p + int (length (to_lower m)), st', out'),
          (line, pos, old_pos, st, out))
        \<in> measure (\<lambda>(line, pos, old_pos, st, out). nat (int (length line) - pos))"
    by (simp add: to_lower_def)
qed

declare parse_line_loop.simps [simp del]

text \<open>
  The \<^verbatim>\<open>for\<close> loop over the lines: each line is trimmed and scanned; the tag state
  is declared before the loop and so carries over from line to line.
\<close>

fun parse_lines_loop :: "string list \<Rightarrow> tag_state \<Rightarrow> SubtitleText list list option" where
  "parse_lines_loop [] st = Some []"
| "parse_lines_loop (l # ls) st =
     (case parse_line_loop (trim l) 0 0 st [] of
        None \<Rightarrow> None
      | Some (st', runs) \<Rightarrow> map_option ((#) runs) (parse_lines_loop ls st'))"

text \<open>The vector \<^verbatim>\<open>formatted_lines\<close> that \<^verbatim>\<open>parse_lines\<close> hands to the layout.\<close>

definition formatted_lines :: "string list \<Rightarrow> SubtitleText list list option" where
  "formatted_lines text_lines = parse_lines_loop text_lines initial_tag_state"

subsection \<open>Canvas geometry: the arithmetic of the constructor\<close>

text \<open>
  The constructor computes in \<^verbatim>\<open>int\<close>. A result outside the 32-bit range wraps
  around (two's complement), as it does on the player's targets.
\<close>

definition wrap32 :: "int \<Rightarrow> int" where
  "wrap32 x = signed_take_bit 31 x"

text \<open>
  The constructor's floating-point expressions are not computed in the model; their
  results, converted to \<^verbatim>\<open>int\<close>, are taken from three functions:
  \<^verbatim>\<open>screen_height * r_font_size\<close>, and the divisions by \<^verbatim>\<open>vscale\<close> and by
  \<^verbatim>\<open>hscale\<close>.
\<close>

record fpu =
  mul_font_size :: "int \<Rightarrow> int"
  div_vscale :: "int \<Rightarrow> int"
  div_hscale :: "int \<Rightarrow> int"

text \<open>
  Modelled from the spec: the types of the members declared in
  \<^verbatim>\<open>SubtitleRenderer.h\<close>, taken to be \<^verbatim>\<open>int\<close> (\<^verbatim>\<open>bool\<close> for the two
  flags), and the initial value 0 of \<^verbatim>\<open>left_aligned_margin\<close>. The record holds
  the members the constructor sets, with the two margins it hands to the layers.
\<close>

record geometry =
  m_centered :: bool
  m_ghost_box :: bool
  m_max_lines :: int
  m_font_size :: int
  m_padding :: int
  m_image_width :: int
  m_image_height :: int
  left_margin :: int
  top_margin :: int
  left_aligned_margin :: int
  m_scaled_image_width :: int
  m_scaled_image_height :: int
  m_scaled_padding :: int

definition SubtitleRenderer_geometry ::
  "fpu \<Rightarrow> int \<Rightarrow> int \<Rightarrow> bool \<Rightarrow> bool \<Rightarrow> int \<Rightarrow> geometry" where
  "SubtitleRenderer_geometry fp screen_width screen_height centered box_opacity lines =
     (let max_lines = wrap32 lines;
          font_size = wrap32 (mul_font_size fp screen_height);
          padding = font_size sdiv 4;
          line_height = wrap32 (font_size + padding);
          image_height0 = wrap32 (wrap32 (max_lines * line_height) + 5);
          image_height = wrap32 (image_height0 + 15) AND NOT 15;
          image_width0 = wrap32 (screen_width - 100);
          image_width = image_width0 AND NOT 15;
          left_margin' = wrap32 (screen_width - image_width) sdiv 2;
          top_margin' = wrap32 (wrap32 (screen_height - image_height) - line_height sdiv 2);
          lam0 = (if screen_width > 1300 then wrap32 (screen_width - 1300) sdiv 2
                  else if screen_width > screen_height
                    then wrap32 (screen_width - screen_height) sdiv 2
                  else 0);
          lam = (if lam0 > left_margin' then wrap32 (lam0 - left_margin') else lam0)
      in \<lparr>m_centered = centered, m_ghost_box = box_opacity, m_max_lines = max_lines,
          m_font_size = font_size, m_padding = padding,
          m_image_width = image_width, m_image_height = image_height,
          left_margin = left_margin', top_margin = top_margin',
          left_aligned_margin = lam,
          m_scaled_image_width = wrap32 (div_hscale fp image_width),
          m_scaled_image_height = wrap32 (div_vscale fp image_height),
          m_scaled_padding = wrap32 (div_vscale fp padding)\<rparr>)"

subsection \<open>The renderer's state\<close>

text \<open>
  The calls made on the Cairo context \<^verbatim>\<open>m_cr\<close>, in order. The pixels of the
  surface are whatever Cairo draws for them. \<^verbatim>\<open>SetSource c\<close> is
  \<^verbatim>\<open>cairo_set_source\<close> with the pattern that \<^verbatim>\<open>set_color\<close> chooses for the code
  \<open>c\<close> (\<open>-1\<close> default colour, \<open>-2\<close> ghost box, \<open>0\<close> black outline);
  \<^verbatim>\<open>SetSourceRGBA r g b\<close> carries the three bytes that the source divides by
  \<^verbatim>\<open>255.0f\<close>.
\<close>

datatype cairo_op =
    SetScaledFont font_type
  | SetSource int
  | SetSourceRGBA int int int
  | Rectangle int int int int
  | Fill
  | GlyphPath cairo_glyphs
  | FillPreserve
  | SetLineWidth int
  | Stroke

text \<open>
  The context \<^verbatim>\<open>m_cr\<close> with its target surface \<^verbatim>\<open>m_surface\<close>: the size of the
  surface, the current scaled font (\<open>None\<close> before the first
  \<^verbatim>\<open>cairo_set_scaled_font\<close>) and the calls so far.
\<close>

record cairo_t =
  cr_width :: int
  cr_height :: int
  cr_font :: "font_type option"
  cr_ops :: "cairo_op list"

type_synonym byte = "8 word"

text \<open>
  The buffer \<^verbatim>\<open>other_image_data\<close>: the size asked of \<^verbatim>\<open>malloc\<close> and the bytes
  written through \<^verbatim>\<open>p\<close> so far (the rest is uninitialised).
\<close>

record pixel_buffer =
  capacity :: nat
  written :: "byte list"

text \<open>
  The allocations that are live: surfaces, contexts, glyph arrays and pixel buffers. An
  allocation adds one, a release takes one away. Nothing proved here depends on addresses, so a
  pointer member of the renderer is modelled by what it points to.
\<close>

record heap =
  live_surfaces :: int
  live_contexts :: int
  live_glyph_arrays :: int
  live_buffers :: int

definition empty_heap :: heap where
  "empty_heap = \<lparr>live_surfaces = 0, live_contexts = 0, live_glyph_arrays = 0, live_buffers = 0\<rparr>"

definition live_total :: "heap \<Rightarrow> int" where
  "live_total h = live_surfaces h + live_contexts h + live_glyph_arrays h + live_buffers h"

text \<open>
  Modelled from the spec: the class \<^verbatim>\<open>DispmanxLayer\<close> of
  \<^verbatim>\<open>DispmanxLayer.h\<close>. A layer offers \<^verbatim>\<open>setImageData(buffer)\<close> and
  \<^verbatim>\<open>hideElement()\<close>; it is modelled by the calls it has received.
\<close>

datatype image_data = RawPixels pixel_buffer | CairoPixels "cairo_op list"

datatype layer_call = HideElement | SetImageData image_data

record renderer =
  geom :: geometry
  m_prepared_from_image :: bool
  m_prepared_from_text :: bool
  other_image_data :: pixel_buffer
  cairo_image_data :: "cairo_op list"
  m_cr :: cairo_t
  m_current_font :: "font_type option"
  m_color :: int
  heap :: heap
  subtitleLayer :: "layer_call list"
  dvdSubLayer :: "layer_call list"

text \<open>
  \<^verbatim>\<open>m_current_font\<close> is \<open>None\<close> for the value \<^verbatim>\<open>-500\<close> that stands for
  no font.
\<close>

subsection \<open>unprepare, show\_next, hide\<close>

definition unprepare :: "renderer \<Rightarrow> renderer" where
  "unprepare r =
     (let r1 = (if m_prepared_from_image r
                then r\<lparr>heap := (heap r)\<lparr>live_buffers := live_buffers (heap r) - 1\<rparr>,
                       m_prepared_from_image := False\<rparr>
                else r)
      in if m_prepared_from_text r1
         then r1\<lparr>heap := (heap r1)\<lparr>live_contexts := live_contexts (heap r1) - 1,
                                       live_surfaces := live_surfaces (heap r1) - 1\<rparr>,
                 m_prepared_from_text := False\<rparr>
         else r1)"

definition show_next :: "renderer \<Rightarrow> renderer" where
  "show_next r =
     (if m_prepared_from_image r then
        unprepare (r\<lparr>subtitleLayer := subtitleLayer r @ [HideElement],
                     dvdSubLayer := dvdSubLayer r @ [SetImageData (RawPixels (other_image_data r))]\<rparr>)
      else if m_prepared_from_text r then
        unprepare (r\<lparr>dvdSubLayer := dvdSubLayer r @ [HideElement],
                     subtitleLayer :=
                       subtitleLayer r @ [SetImageData (CairoPixels (cairo_image_data r))]\<rparr>)
      else r)"

definition hide :: "renderer \<Rightarrow> renderer" where
  "hide r = r\<lparr>subtitleLayer := subtitleLayer r @ [HideElement],
              dvdSubLayer := dvdSubLayer r @ [HideElement]\<rparr>"

text \<open>
  Modelled from the spec: the initial values of \<^verbatim>\<open>m_prepared_from_image\<close> and
  \<^verbatim>\<open>m_prepared_from_text\<close>, set in \<^verbatim>\<open>SubtitleRenderer.h\<close>; both start false
  (the state Idle). This is the renderer as the constructor leaves it: no frame
  resource is allocated and the layers have received no call. The members that are not
  yet assigned are given fixed values here.
\<close>

definition new_renderer :: "geometry \<Rightarrow> renderer" where
  "new_renderer g =
     \<lparr>geom = g, m_prepared_from_image = False, m_prepared_from_text = False,
      other_image_data = \<lparr>capacity = 0, written = []\<rparr>,
      cairo_image_data = [],
      m_cr = \<lparr>cr_width = 0, cr_height = 0, cr_font = None, cr_ops = []\<rparr>,
      m_current_font = None, m_color = - 500,
      heap = empty_heap, subtitleLayer = [], dvdSubLayer = []\<rparr>"

subsection \<open>make\_subtitle\_image for a bitmap\<close>

text \<open>
  \<^verbatim>\<open>pixels.data() + off\<close> read for \<^verbatim>\<open>len\<close> bytes: the bytes of the string and
  its terminating NUL can be read, a read beyond them is out of bounds (\<open>None\<close>).
\<close>

definition src_read :: "byte list \<Rightarrow> nat \<Rightarrow> nat \<Rightarrow> byte list option" where
  "src_read pixels off len =
     (if off + len \<le> length pixels + 1 then Some (take len (drop off (pixels @ [0])))
      else None)"

text \<open>
  The \<^verbatim>\<open>for\<close> loop over the rows, \<^verbatim>\<open>j\<close> counting up and \<open>n\<close> rows left:
  \<^verbatim>\<open>mem_set(left_padding)\<close>, \<^verbatim>\<open>mem_copy(x, sub_width)\<close>,
  \<^verbatim>\<open>mem_set(right_padding)\<close>. The result is what the loop appends to the buffer.
\<close>

fun copy_rows :: "int \<Rightarrow> int \<Rightarrow> int \<Rightarrow> byte list \<Rightarrow> int \<Rightarrow> nat \<Rightarrow> byte list option" where
  "copy_rows left_padding sub_width right_padding pixels j 0 = Some []"
| "copy_rows left_padding sub_width right_padding pixels j (Suc n) =
     (case src_read pixels (nat (j * sub_width)) (nat sub_width) of
        None \<Rightarrow> None
      | Some row \<Rightarrow>
          map_option
            (\<lambda>rest. replicate (nat left_padding) 0 @ row @ replicate (nat right_padding) 0 @ rest)
            (copy_rows left_padding sub_width right_padding pixels (j + 1) n))"

text \<open>
  The four paddings, from the scaled canvas \<open>W\<close> by \<open>H\<close>, the bitmap's size and
  \<^verbatim>\<open>m_scaled_padding\<close>:
  \<^verbatim>\<open>
  int left_padding = (m_scaled_image_width / 2) - (sub_width / 2);
  int right_padding = m_scaled_image_width - sub_width - left_padding;
  int bottom_padding = m_scaled_padding;
  int top_padding = m_scaled_image_height - sub_height - bottom_padding;
  \<close>
\<close>

definition left_padding :: "int \<Rightarrow> int \<Rightarrow> int" where
  "left_padding W sub_width = W sdiv 2 - sub_width sdiv 2"

definition right_padding :: "int \<Rightarrow> int \<Rightarrow> int" where
  "right_padding W sub_width = W - sub_width - left_padding W sub_width"

definition top_padding :: "int \<Rightarrow> int \<Rightarrow> int \<Rightarrow> int" where
  "top_padding H sub_height bottom_padding = H - sub_height - bottom_padding"

text \<open>
  The bitmap overload. The first test returns before anything is allocated; the buffer
  is then allocated and assigned to \<^verbatim>\<open>other_image_data\<close>, the four paddings are
  computed, and the second test returns with the buffer allocated and
  \<^verbatim>\<open>m_prepared_from_image\<close> unchanged. \<open>None\<close> is an out-of-bounds read of
  the source pixels.
\<close>

definition make_subtitle_image_bitmap ::
  "int \<Rightarrow> int \<Rightarrow> byte list \<Rightarrow> renderer \<Rightarrow> renderer option" where
  "make_subtitle_image_bitmap sub_width sub_height pixels r =
     (let W = m_scaled_image_width (geom r); H = m_scaled_image_height (geom r) in
      if sub_width < 1 \<or> sub_width > W \<or> sub_height < 1 \<or> sub_height > H then Some r
      else
        (let r1 = r\<lparr>other_image_data := \<lparr>capacity = size_t (wrap32 (W * H)), written = []\<rparr>,
                      heap := (heap r)\<lparr>live_buffers := live_buffers (heap r) + 1\<rparr>\<rparr>;
             bottom_padding = m_scaled_padding (geom r)
         in if left_padding W sub_width < 0 \<or> right_padding W sub_width < 0 \<or>
               bottom_padding < 0 \<or> top_padding H sub_height bottom_padding < 0
            then Some r1
            else
              (case copy_rows (left_padding W sub_width) sub_width (right_padding W sub_width)
                      pixels 0 (nat sub_height) of
                 None \<Rightarrow> None
               | Some rows \<Rightarrow>
                   Some (r1\<lparr>other_image_data :=
                              \<lparr>capacity = size_t (wrap32 (W * H)),
                               written =
                                 replicate (nat (top_padding H sub_height bottom_padding * W)) 0 @
                                 rows @ replicate (nat (bottom_padding * W)) 0\<rparr>,
                            m_prepared_from_image := True\<rparr>))))"

subsection \<open>make\_subtitle\_image for text\<close>

text \<open>
  The text-shaping backend (Cairo), outside the renderer: whether
  \<^verbatim>\<open>cairo_scaled_font_text_to_glyphs\<close> succeeds on a text in a font (it fails, for
  one, on text that is not valid UTF-8), and the \<^verbatim>\<open>x_advance\<close> that
  \<^verbatim>\<open>cairo_glyph_extents\<close> reports for a glyph array in the context's font.
\<close>

record backend =
  shaping_ok :: "font_type option \<Rightarrow> string \<Rightarrow> bool"
  x_advance :: "font_type option \<Rightarrow> cairo_glyphs \<Rightarrow> double"

definition cairo_scaled_font_text_to_glyphs ::
  "backend \<Rightarrow> font_type option \<Rightarrow> double \<Rightarrow> double \<Rightarrow> string \<Rightarrow> cairo_glyphs option" where
  "cairo_scaled_font_text_to_glyphs be f x y utf8 =
     (if shaping_ok be f utf8 then Some \<lparr>g_font = f, g_text = utf8, g_x = x, g_y = y\<rparr>
      else None)"

text \<open>The conversion of a \<^verbatim>\<open>double\<close> to \<^verbatim>\<open>int\<close>: towards zero.\<close>

definition c_trunc :: "double \<Rightarrow> int" where
  "c_trunc q = (if q \<ge> 0 then \<lfloor>q\<rfloor> else \<lceil>q\<rceil>)"

definition cr_emit :: "cairo_op \<Rightarrow> renderer \<Rightarrow> renderer" where
  "cr_emit c r = r\<lparr>m_cr := (m_cr r)\<lparr>cr_ops := cr_ops (m_cr r) @ [c]\<rparr>\<rparr>"

definition set_font :: "font_type \<Rightarrow> renderer \<Rightarrow> renderer" where
  "set_font new_font_type r =
     (if Some new_font_type = m_current_font r then r
      else r\<lparr>m_cr := (m_cr r)\<lparr>cr_font := Some new_font_type,
                                cr_ops := cr_ops (m_cr r) @ [SetScaledFont new_font_type]\<rparr>,
             m_current_font := Some new_font_type\<rparr>)"

definition set_color :: "int \<Rightarrow> renderer \<Rightarrow> renderer" where
  "set_color new_color r =
     (if new_color = m_color r then r
      else (cr_emit
              (if new_color = - 1 then SetSource (- 1)
               else if new_color = - 2 then SetSource (- 2)
               else if new_color = 0 then SetSource 0
               else SetSourceRGBA (drop_bit 16 new_color AND 0xFF)
                                  (drop_bit 8 new_color AND 0xFF)
                                  (drop_bit 0 new_color AND 0xFF))
              r)\<lparr>m_color := new_color\<rparr>)"

text \<open>
  The first inner loop over the runs of a line: each run is shaped at the cursor (Cairo
  is given \<^verbatim>\<open>text.c_str()\<close> with the length \<^verbatim>\<open>-1\<close>, so it reads the text of the
  run up to its first NUL) and the
  cursor and \<^verbatim>\<open>box_width\<close> advance by the run's \<^verbatim>\<open>x_advance\<close> (an \<^verbatim>\<open>int\<close>
  incremented by a \<^verbatim>\<open>double\<close>). \<open>Inl\<close> is the \<^verbatim>\<open>return\<close> on a failed
  shaping, with the state at that point; \<open>Inr\<close> carries the runs with their glyph
  arrays, the cursor, \<^verbatim>\<open>box_width\<close> and the state.
\<close>

fun shape_runs ::
  "backend \<Rightarrow> int \<Rightarrow> SubtitleText list \<Rightarrow> int \<Rightarrow> int \<Rightarrow> renderer \<Rightarrow>
     renderer + (SubtitleText list \<times> int \<times> int \<times> renderer)" where
  "shape_runs be cursor_y_position [] cursor_x_position box_width r =
     Inr ([], cursor_x_position, box_width, r)"
| "shape_runs be cursor_y_position (t # ts) cursor_x_position box_width r =
     (let r1 = set_font (font t) r in
      case cairo_scaled_font_text_to_glyphs be (cr_font (m_cr r1))
             (of_int (cursor_x_position + m_padding (geom r1)))
             (of_int (cursor_y_position - m_padding (geom r1) sdiv 4))
             (c_str (run_text t)) of
        None \<Rightarrow> Inl r1
      | Some gl \<Rightarrow>
          (let r2 = r1\<lparr>heap := (heap r1)\<lparr>live_glyph_arrays := live_glyph_arrays (heap r1) + 1\<rparr>\<rparr>;
               adv = x_advance be (cr_font (m_cr r2)) gl
           in case shape_runs be cursor_y_position ts
                     (c_trunc (of_int cursor_x_position + adv))
                     (c_trunc (of_int box_width + adv)) r2 of
                Inl r' \<Rightarrow> Inl r'
              | Inr (ts', x', bw', r') \<Rightarrow> Inr (t\<lparr>glyphs := Some gl\<rparr> # ts', x', bw', r')))"

text \<open>\<^verbatim>\<open>p->x += cursor_x_position\<close> for every glyph of every run of the line.\<close>

definition shift_glyphs :: "int \<Rightarrow> SubtitleText \<Rightarrow> SubtitleText" where
  "shift_glyphs d t = t\<lparr>glyphs := map_option (\<lambda>g. g\<lparr>g_x := g_x g + of_int d\<rparr>) (glyphs t)\<rparr>"

text \<open>
  The last inner loop: font, colour, \<^verbatim>\<open>cairo_glyph_path\<close> and
  \<^verbatim>\<open>cairo_glyph_free\<close> for each run. (A run without a glyph array does not occur
  here; \<^verbatim>\<open>cairo_glyph_free(NULL)\<close> does nothing.)
\<close>

fun draw_runs :: "SubtitleText list \<Rightarrow> renderer \<Rightarrow> renderer" where
  "draw_runs [] r = r"
| "draw_runs (t # ts) r =
     (let r1 = set_color (color t) (set_font (font t) r) in
      draw_runs ts
        (case glyphs t of
           None \<Rightarrow> r1
         | Some g \<Rightarrow>
             (cr_emit (GlyphPath g) r1)
               \<lparr>heap := (heap r1)\<lparr>live_glyph_arrays := live_glyph_arrays (heap r1) - 1\<rparr>\<rparr>))"

text \<open>The body of the outer loop for one line, at the cursor \<^verbatim>\<open>cursor_y_position\<close>.\<close>

definition render_line :: "backend \<Rightarrow> SubtitleText list \<Rightarrow> int \<Rightarrow> renderer \<Rightarrow> renderer + renderer" where
  "render_line be line cursor_y_position r =
     (case shape_runs be cursor_y_position line (left_aligned_margin (geom r))
             (m_padding (geom r) * 2) r of
        Inl r' \<Rightarrow> Inl r'
      | Inr (line1, x1, box_width, r1) \<Rightarrow>
          (let cursor_x_position =
                 (if m_centered (geom r1)
                  then m_image_width (geom r1) sdiv 2 - box_width sdiv 2
                  else left_aligned_margin (geom r1));
               line2 = (if m_centered (geom r1) then map (shift_glyphs cursor_x_position) line1
                        else line1);
               r2 = (if m_ghost_box (geom r1)
                     then cr_emit Fill
                            (cr_emit (Rectangle cursor_x_position
                                        (cursor_y_position - m_font_size (geom r1)) box_width
                                        (m_font_size (geom r1) + m_padding (geom r1)))
                               (set_color (- 2) r1))
                     else r1);
               r3 = draw_runs line2 r2
           in Inr (cr_emit Stroke (cr_emit (SetLineWidth 2) (set_color 0 (cr_emit FillPreserve r3))))))"

text \<open>
  The outer loop \<^verbatim>\<open>for(int i = no_of_lines - 1; i > -1; i--)\<close>, with \<open>Suc i\<close>
  lines still to draw: line \<open>i\<close> is drawn and the cursor moves up by
  \<^verbatim>\<open>m_font_size + m_padding\<close>.
\<close>

fun lines_loop ::
  "backend \<Rightarrow> SubtitleText list list \<Rightarrow> nat \<Rightarrow> int \<Rightarrow> renderer \<Rightarrow> renderer + renderer" where
  "lines_loop be parsed_lines 0 cursor_y_position r = Inr r"
| "lines_loop be parsed_lines (Suc i) cursor_y_position r =
     (case render_line be (parsed_lines ! i) cursor_y_position r of
        Inl r' \<Rightarrow> Inl r'
      | Inr r' \<Rightarrow>
          lines_loop be parsed_lines i
            (cursor_y_position - (m_font_size (geom r') + m_padding (geom r'))) r')"

text \<open>
  The text overload: a new surface and context, the font and colour trackers reset, at
  most \<^verbatim>\<open>m_max_lines\<close> lines drawn from the bottom line upwards, and then the frame
  marked as prepared, unless a shaping failed, in which case the function has returned
  before that. (\<open>i < no_of_lines \<le> parsed_lines.size()\<close>, so \<open>parsed_lines ! i\<close>
  is inside the vector.)
\<close>

definition make_subtitle_image_text :: "backend \<Rightarrow> SubtitleText list list \<Rightarrow> renderer \<Rightarrow> renderer" where
  "make_subtitle_image_text be parsed_lines r =
     (let r0 = r\<lparr>m_cr := \<lparr>cr_width = m_image_width (geom r), cr_height = m_image_height (geom r),
                            cr_font = None, cr_ops = []\<rparr>,
                   heap := (heap r)\<lparr>live_surfaces := live_surfaces (heap r) + 1,
                                    live_contexts := live_contexts (heap r) + 1\<rparr>,
                   m_current_font := None,
                   m_color := - 500\<rparr>;
          cursor_y_position = m_image_height (geom r) - m_padding (geom r);
          no_of_lines = (if int (length parsed_lines) > m_max_lines (geom r)
                         then m_max_lines (geom r) else int (length parsed_lines))
      in case lines_loop be parsed_lines (nat no_of_lines) cursor_y_position r0 of
           Inl r' \<Rightarrow> r'
         | Inr r' \<Rightarrow> r'\<lparr>cairo_image_data := cr_ops (m_cr r'), m_prepared_from_text := True\<rparr>)"

subsection \<open>parse\_lines and prepare\<close>

definition parse_lines :: "backend \<Rightarrow> string list \<Rightarrow> renderer \<Rightarrow> renderer option" where
  "parse_lines be text_lines r =
     map_option (\<lambda>lines. make_subtitle_image_text be lines r) (formatted_lines text_lines)"

text \<open>
  Modelled from the spec: the class \<^verbatim>\<open>Subtitle\<close> of \<^verbatim>\<open>Subtitle.h\<close>, with the
  members that \<^verbatim>\<open>prepare\<close> reads: a bitmap subtitle (width, height, pixels) or the
  text lines.
\<close>

record Subtitle =
  isImage :: bool
  width :: int
  height :: int
  image_data :: "byte list"
  text_lines :: "string list"

definition prepare :: "backend \<Rightarrow> Subtitle \<Rightarrow> renderer \<Rightarrow> renderer option" where
  "prepare be sub r =
     (let r1 = unprepare r in
      if isImage sub then make_subtitle_image_bitmap (width sub) (height sub) (image_data sub) r1
      else parse_lines be (text_lines sub) r1)"

definition prepare_lines :: "backend \<Rightarrow> string list \<Rightarrow> renderer \<Rightarrow> renderer option" where
  "prepare_lines be lines r = parse_lines be lines (unprepare r)"

subsection \<open>Concrete inputs used in the examples\<close>

text \<open>
  The floating-point results for a screen 1080 pixels high and
  \<^verbatim>\<open>r_font_size = 0.055\<close>: the font size is 59, \<^verbatim>\<open>vscale\<close> is 1.98 and
  \<^verbatim>\<open>hscale\<close> is 2.8116.
\<close>

definition fpu_1080 :: fpu where
  "fpu_1080 = \<lparr>mul_font_size = (\<lambda>h. 59),
               div_vscale = (\<lambda>v. (v * 100) sdiv 198),
               div_hscale = (\<lambda>v. (v * 10000) sdiv 28116)\<rparr>"

text \<open>The renderer for a 1920 by 1080 screen, three lines, centred, with the ghost box.\<close>

definition renderer_1080 :: renderer where
  "renderer_1080 = new_renderer (SubtitleRenderer_geometry fpu_1080 1920 1080 True True 3)"

text \<open>A backend that shapes every text and reports an advance of 100 for every run.\<close>

definition backend_100 :: backend where
  "backend_100 = \<lparr>shaping_ok = (\<lambda>f t. True), x_advance = (\<lambda>f g. 100)\<rparr>"

text \<open>
  A backend that refuses the text consisting of the single byte \<open>0xFF\<close>, which is
  not valid UTF-8.
\<close>

definition backend_utf8 :: backend where
  "backend_utf8 = \<lparr>shaping_ok = (\<lambda>f t. t \<noteq> [CHR 0xFF]), x_advance = (\<lambda>f g. 100)\<rparr>"

text \<open>A small scaled canvas, 10 by 20 with a bottom padding of 2.\<close>

definition geometry_10x20 :: geometry where
  "geometry_10x20 =
     \<lparr>m_centered = True, m_ghost_box = False, m_max_lines = 3, m_font_size = 59,
      m_padding = 14, m_image_width = 1808, m_image_height = 224, left_margin = 56,
      top_margin = 820, left_aligned_margin = 254,
      m_scaled_image_width = 10, m_scaled_image_height = 20, m_scaled_padding = 2\<rparr>"

text \<open>
  The renderer after the bitmap \<open>[1, 2, 3]\<close>, 3 wide and 1 high, has been placed on
  the small canvas: 17 blank rows, then 4 blank bytes, the row and 3 blank bytes, then
  2 blank rows.
\<close>

definition accepted_3x1 :: renderer where
  "accepted_3x1 =
     (new_renderer geometry_10x20)
       \<lparr>m_prepared_from_image := True,
        other_image_data :=
          \<lparr>capacity = 200,
           written = replicate 170 0 @ (replicate 4 0 @ [1, 2, 3] @ replicate 3 0) @
                     replicate 20 0\<rparr>,
        heap := empty_heap\<lparr>live_buffers := 1\<rparr>\<rparr>"

subsection \<open>Auxiliary notions used in the statements\<close>

text \<open>
  Row \<open>k\<close> of the source bitmap between its two paddings, as the row loop writes it.
\<close>

definition padded_row :: "int \<Rightarrow> int \<Rightarrow> int \<Rightarrow> byte list \<Rightarrow> int \<Rightarrow> byte list" where
  "padded_row l w r px k =
     replicate (nat l) 0 @ take (nat w) (drop (nat (k * w)) (px @ [0])) @ replicate (nat r) 0"

text \<open>
  The glyph arrays handed to \<^verbatim>\<open>cairo_glyph_path\<close> among a sequence of calls, and the
  texts they were shaped from: the texts that have been drawn on the context.
\<close>

definition glyph_paths :: "cairo_op list \<Rightarrow> cairo_glyphs list" where
  "glyph_paths ops = List.map_filter (\<lambda>c. case c of GlyphPath g \<Rightarrow> Some g | _ \<Rightarrow> None) ops"

definition drawn_texts :: "renderer \<Rightarrow> string list" where
  "drawn_texts r = map g_text (glyph_paths (cr_ops (m_cr r)))"

text \<open>
  Everything of the renderer that drawing a text frame leaves alone: all but the
  context, the font and colour trackers and the number of live glyph arrays.
\<close>

definition outside_drawing ::
  "renderer \<Rightarrow> geometry \<times> bool \<times> bool \<times> pixel_buffer \<times> cairo_op list \<times>
     layer_call list \<times> layer_call list \<times> int \<times> int \<times> int" where
  "outside_drawing r =
     (geom r, m_prepared_from_image r, m_prepared_from_text r, other_image_data r,
      cairo_image_data r, subtitleLayer r, dvdSubLayer r,
      live_surfaces (heap r), live_contexts (heap r), live_buffers (heap r))"

text \<open>The font tracker agrees with the context's font.\<close>

definition font_in_sync :: "renderer \<Rightarrow> bool" where
  "font_in_sync r = (cr_font (m_cr r) = m_current_font r)"

text \<open>
  The text of a run as Cairo reads it: \<^verbatim>\<open>text.c_str()\<close> with the length \<^verbatim>\<open>-1\<close>,
  the bytes before the first NUL.
\<close>

definition text_c_str :: "SubtitleText \<Rightarrow> string" where
  "text_c_str t = c_str (run_text t)"

text \<open>A run that holds the glyph array of its own text, as Cairo read it.\<close>

definition shaped :: "SubtitleText \<Rightarrow> bool" where
  "shaped t = (case glyphs t of None \<Rightarrow> False | Some g \<Rightarrow> g_text g = text_c_str t)"

text \<open>
  The backend shapes every run of a line, each in its own font and as the C string that
  Cairo is given.
\<close>

definition shapes_all :: "backend \<Rightarrow> SubtitleText list \<Rightarrow> bool" where
  "shapes_all be line = list_all (\<lambda>t. shaping_ok be (Some (font t)) (text_c_str t)) line"

text \<open>
  The number of lines that \<^verbatim>\<open>make_subtitle_image\<close> draws:
  \<^verbatim>\<open>min(parsed_lines.size(), m_max_lines)\<close>, and none when that is negative.
\<close>

definition no_of_lines :: "SubtitleText list list \<Rightarrow> renderer \<Rightarrow> nat" where
  "no_of_lines pl r = nat (min (int (length pl)) (m_max_lines (geom r)))"

text \<open>The renderer for a 1920 by 1080 screen that draws at most two lines.\<close>

definition renderer_two_lines :: renderer where
  "renderer_two_lines = new_renderer (SubtitleRenderer_geometry fpu_1080 1920 1080 True False 2)"

text \<open>
  For a run drawn from the glyph array \<open>g\<close>: the distance from the left edge of the
  canvas to the left edge of the run (its origin), and from the right edge of the run
  (origin plus advance) to the right edge of the canvas.
\<close>

definition run_left_gap :: "cairo_glyphs \<Rightarrow> double" where
  "run_left_gap g = g_x g"

definition run_right_gap :: "backend \<Rightarrow> renderer \<Rightarrow> cairo_glyphs \<Rightarrow> double" where
  "run_right_gap be r g = of_int (m_image_width (geom r)) - (g_x g + x_advance be (g_font g) g)"

text \<open>
  The states the renderer can be in: the state the constructor leaves, and every state
  reached from it by the public member functions (a call that reads out of bounds
  reaches no state).
\<close>

inductive reachable :: "backend \<Rightarrow> geometry \<Rightarrow> renderer \<Rightarrow> bool" for be :: backend and g :: geometry where
  reachable_new: "reachable be g (new_renderer g)"
| reachable_prepare: "reachable be g r \<Longrightarrow> prepare be sub r = Some r' \<Longrightarrow> reachable be g r'"
| reachable_prepare_lines:
    "reachable be g r \<Longrightarrow> prepare_lines be lines r = Some r' \<Longrightarrow> reachable be g r'"
| reachable_unprepare: "reachable be g r \<Longrightarrow> reachable be g (unprepare r)"
| reachable_show_next: "reachable be g r \<Longrightarrow> reachable be g (show_next r)"
| reachable_hide: "reachable be g r \<Longrightarrow> reachable be g (hide r)"

text \<open>A bitmap subtitle 3 wide and 1 high, which fits the scaled canvas.\<close>

definition small_bitmap :: Subtitle where
  "small_bitmap = \<lparr>isImage = True, width = 3, height = 1,
                   image_data = [1, 2, 3], text_lines = []\<rparr>"

section \<open>Properties of the tag parser\<close>

subsection \<open>hex2int\<close>

declare hex2int_loop.simps [simp del]

lemma hex2int_loop_step:
  "i < 6 \<Longrightarrow> 0 \<le> i \<Longrightarrow> nat i < length hex \<Longrightarrow>
     hex2int_loop hex i f r =
     hex2int_loop hex (i + 1) (f - 4) (r + push_bit (nat f) (hex_digit_value (hex ! nat i)))"
  by (subst hex2int_loop.simps) (simp add: c_str_at_def hex_digit_value_def)

lemma hex2int_loop_exit: "hex2int_loop hex 6 f r = Some r"
  by (subst hex2int_loop.simps) simp

lemma hex2int_six:
  "hex2int [a, b, c, d, e, f] =
     Some (push_bit 20 (hex_digit_value a) + push_bit 16 (hex_digit_value b) +
           push_bit 12 (hex_digit_value c) + push_bit 8 (hex_digit_value d) +
           push_bit 4 (hex_digit_value e) + hex_digit_value f)"
  unfolding hex2int_def
  by (simp add: hex2int_loop_step hex2int_loop_exit)

lemma hex_digit_value_range:
  "is_lower_hex c \<Longrightarrow> 0 \<le> hex_digit_value c \<and> hex_digit_value c < 16"
  by (auto simp: is_lower_hex_def hex_digit_value_def)

lemma hex_digit_inverse: "is_lower_hex c \<Longrightarrow> hex_digit (hex_digit_value c) = c"
  by (auto simp: is_lower_hex_def hex_digit_value_def hex_digit_def)

lemma hex_digit_value_inverse:
  "0 \<le> v \<Longrightarrow> v < 16 \<Longrightarrow> hex_digit_value (hex_digit v) = v \<and> is_lower_hex (hex_digit v)"
  by (auto simp: is_lower_hex_def hex_digit_value_def hex_digit_def)

lemma div_mod_16: "0 \<le> r \<Longrightarrow> r < 16 \<Longrightarrow> (16 * q + r) div 16 = q \<and> (16 * q + r) mod 16 = (r::int)"
  by simp

lemma div_16_powers:
  "(n::int) div 256 = n div 16 div 16"
  "n div 4096 = n div 16 div 16 div 16"
  "n div 65536 = n div 16 div 16 div 16 div 16"
  "n div 1048576 = n div 16 div 16 div 16 div 16 div 16"
  by (simp_all add: div_mult2_eq[symmetric] del: div_mult2_eq)

lemma nibbles6_sum:
  assumes "0 \<le> a" "a < 16" "0 \<le> b" "b < 16" "0 \<le> c" "c < 16"
    and "0 \<le> d" "d < 16" "0 \<le> e" "e < 16" "0 \<le> f" "f < 16"
  shows "nibbles6 (push_bit 20 a + push_bit 16 b + push_bit 12 c + push_bit 8 d +
                   push_bit 4 e + f) = [a, b, c, d, e, (f::int)]"
proof -
  define n2 where "n2 = 16 * a + b"
  define n3 where "n3 = 16 * n2 + c"
  define n4 where "n4 = 16 * n3 + d"
  define n5 where "n5 = 16 * n4 + e"
  define n6 where "n6 = 16 * n5 + f"
  have n: "push_bit 20 a + push_bit 16 b + push_bit 12 c + push_bit 8 d + push_bit 4 e + f = n6"
    by (simp add: push_bit_eq_mult n2_def n3_def n4_def n5_def n6_def)
  have d1: "n6 div 16 = n5" "n6 mod 16 = f"
    using assms(11,12) div_mod_16[of f n5] unfolding n6_def by blast+
  have d2: "n5 div 16 = n4" "n5 mod 16 = e"
    using assms(9,10) div_mod_16[of e n4] unfolding n5_def by blast+
  have d3: "n4 div 16 = n3" "n4 mod 16 = d"
    using assms(7,8) div_mod_16[of d n3] unfolding n4_def by blast+
  have d4: "n3 div 16 = n2" "n3 mod 16 = c"
    using assms(5,6) div_mod_16[of c n2] unfolding n3_def by blast+
  have d5: "n2 div 16 = a" "n2 mod 16 = b"
    using assms(3,4) div_mod_16[of b a] unfolding n2_def by blast+
  have d6: "a mod 16 = a" using assms(1,2) by simp
  show ?thesis
    unfolding n nibbles6_def div_16_powers d1 d2 d3 d4 d5 d6 by (rule refl)
qed

lemma nibbles6_bound:
  assumes "0 \<le> a" "a < 16" "0 \<le> b" "b < 16" "0 \<le> c" "c < 16"
    and "0 \<le> d" "d < 16" "0 \<le> e" "e < 16" "0 \<le> f" "f < 16"
  shows "0 \<le> push_bit 20 a + push_bit 16 b + push_bit 12 c + push_bit 8 d + push_bit 4 e + f \<and>
         push_bit 20 a + push_bit 16 b + push_bit 12 c + push_bit 8 d + push_bit 4 e + f
           < (2 ^ 24 :: int)"
  using assms by (simp add: push_bit_eq_mult)

lemma length_six: "length s = 6 \<Longrightarrow> \<exists>a b c d e f. s = [a, b, c, d, e, f]"
  by (auto simp: length_Suc_conv numeral_eq_Suc)

text \<open>
  C9. For every string \<open>s\<close> of exactly six lowercase hexadecimal digits,
  \<^verbatim>\<open>hex2int\<close> returns (without reading out of bounds) the integer \<open>n\<close> below
  \<open>2 ^ 24\<close> whose six 4-bit nibbles, from the most significant to the least
  significant, are the values of the digits of \<open>s\<close> in order; formatting \<open>n\<close> as
  six lowercase hexadecimal digits gives \<open>s\<close> back.
\<close>

theorem hex2int_six_digits:
  assumes "length s = 6" and "list_all is_lower_hex s"
  shows "\<exists>n. hex2int s = Some n \<and> 0 \<le> n \<and> n < 2 ^ 24 \<and>
             nibbles6 n = map hex_digit_value s \<and> format_hex6 n = s"
proof -
  from length_six[OF assms(1)] obtain a b c d e f where s: "s = [a, b, c, d, e, f]"
    by blast
  let ?n = "push_bit 20 (hex_digit_value a) + push_bit 16 (hex_digit_value b) +
            push_bit 12 (hex_digit_value c) + push_bit 8 (hex_digit_value d) +
            push_bit 4 (hex_digit_value e) + hex_digit_value f"
  from assms(2) s have h: "is_lower_hex a" "is_lower_hex b" "is_lower_hex c"
    "is_lower_hex d" "is_lower_hex e" "is_lower_hex f" by simp_all
  note r = h[THEN hex_digit_value_range, THEN conjunct1] h[THEN hex_digit_value_range, THEN conjunct2]
  have nib: "nibbles6 ?n = map hex_digit_value s"
    unfolding s using nibbles6_sum[of "hex_digit_value a" "hex_digit_value b" "hex_digit_value c"
        "hex_digit_value d" "hex_digit_value e" "hex_digit_value f"] r
    by simp
  have bnd: "0 \<le> ?n \<and> ?n < 2 ^ 24"
    using nibbles6_bound[of "hex_digit_value a" "hex_digit_value b" "hex_digit_value c"
        "hex_digit_value d" "hex_digit_value e" "hex_digit_value f"] r
    by blast
  have fmt: "format_hex6 ?n = s"
    unfolding format_hex6_def nib unfolding s using h by (simp add: hex_digit_inverse)
  have "hex2int s = Some ?n" unfolding s by (rule hex2int_six)
  with nib bnd fmt show ?thesis by blast
qed

theorem hex2int_six_digits_witness:
  "length ''1a2b3c'' = 6 \<and> list_all is_lower_hex ''1a2b3c'' \<and>
   (\<exists>n. hex2int ''1a2b3c'' = Some n \<and> 0 \<le> n \<and> n < 2 ^ 24 \<and>
        nibbles6 n = map hex_digit_value ''1a2b3c'' \<and> format_hex6 n = ''1a2b3c'')"
proof -
  have l: "length ''1a2b3c'' = 6" by simp
  have h: "list_all is_lower_hex ''1a2b3c''" by (simp add: is_lower_hex_def)
  from l h hex2int_six_digits[OF l h] show ?thesis by blast
qed

text \<open>The other direction: parsing the six digits of a 24-bit integer gives it back.\<close>

lemma hex2int_format_hex6:
  assumes "0 \<le> n" and "n < 2 ^ 24"
  shows "hex2int (format_hex6 n) = Some n"
proof -
  define q1 where "q1 = n div 16"
  define q2 where "q2 = q1 div 16"
  define q3 where "q3 = q2 div 16"
  define q4 where "q4 = q3 div 16"
  define q5 where "q5 = q4 div 16"
  define r0 where "r0 = n mod 16"
  define r1 where "r1 = q1 mod 16"
  define r2 where "r2 = q2 mod 16"
  define r3 where "r3 = q3 mod 16"
  define r4 where "r4 = q4 mod 16"
  have q5: "q5 = n div 1048576"
    unfolding q5_def q4_def q3_def q2_def q1_def div_16_powers by (rule refl)
  have r5: "q5 mod 16 = q5" unfolding q5 using assms
    by (simp add: div_less_iff_less_mult pos_imp_zdiv_nonneg_iff)
  have e: "n = 16 * q1 + r0" "q1 = 16 * q2 + r1" "q2 = 16 * q3 + r2" "q3 = 16 * q4 + r3"
    "q4 = 16 * q5 + r4"
    unfolding q1_def q2_def q3_def q4_def q5_def r0_def r1_def r2_def r3_def r4_def
    by simp_all
  have b: "0 \<le> r0 \<and> r0 < 16" "0 \<le> r1 \<and> r1 < 16" "0 \<le> r2 \<and> r2 < 16" "0 \<le> r3 \<and> r3 < 16"
    "0 \<le> r4 \<and> r4 < 16" "0 \<le> q5 \<and> q5 < 16"
    unfolding r0_def r1_def r2_def r3_def r4_def q5 using assms
    by (simp_all add: div_less_iff_less_mult pos_imp_zdiv_nonneg_iff)
  have nib: "nibbles6 n = [q5, r4, r3, r2, r1, r0]"
    unfolding nibbles6_def div_16_powers
    unfolding q1_def[symmetric] q2_def[symmetric] q3_def[symmetric] q4_def[symmetric]
      q5_def[symmetric] r0_def[symmetric] r1_def[symmetric] r2_def[symmetric]
      r3_def[symmetric] r4_def[symmetric] r5
    by (rule refl)
  have "hex2int (format_hex6 n) =
        Some (push_bit 20 q5 + push_bit 16 r4 + push_bit 12 r3 + push_bit 8 r2 +
              push_bit 4 r1 + r0)"
    unfolding format_hex6_def nib list.map hex2int_six
    using b by (simp add: hex_digit_value_inverse)
  also have "push_bit 20 q5 + push_bit 16 r4 + push_bit 12 r3 + push_bit 8 r2 +
              push_bit 4 r1 + r0 = n"
    unfolding push_bit_eq_mult using e by simp
  finally show ?thesis .
qed

subsection \<open>Bold and italic tags\<close>

lemmas tag_eval = parse_tag_def substr_def curly_color_RegFind_def c_str_def Let_def

lemmas parse_eval = formatted_lines_def parse_line_loop.simps tags_RegFind_def
  initial_tag_state_def trim_def is_space_def c_str_def tag_at_def to_lower_def
  to_lower_char_def parse_tag_def substr_def size_t_def font_of_def curly_color_RegFind_def
  html_color_RegFind_def html_color_at_def is_hex_caseless_def is_lower_hex_def hex2int_def
  hex2int_loop.simps c_str_at_def Let_def

lemma parse_tag_bold_on:
  "parse_tag ''<b>'' st = Some (st\<lparr>bold := True\<rparr>)"
  "parse_tag [CHR ''{'', BSL, CHR ''b'', CHR ''1'', CHR ''}''] st = Some (st\<lparr>bold := True\<rparr>)"
  by (simp_all add: tag_eval)

lemma parse_tag_bold_off:
  "parse_tag ''</b>'' st = Some (if bold st then st\<lparr>bold := False\<rparr> else st)"
  "parse_tag [CHR ''{'', BSL, CHR ''b'', CHR ''0'', CHR ''}''] st =
     Some (if bold st then st\<lparr>bold := False\<rparr> else st)"
  by (simp_all add: tag_eval)

lemma parse_tag_italic_on:
  "parse_tag ''<i>'' st = Some (st\<lparr>italic := True\<rparr>)"
  "parse_tag [CHR ''{'', BSL, CHR ''i'', CHR ''1'', CHR ''}''] st = Some (st\<lparr>italic := True\<rparr>)"
  by (simp_all add: tag_eval)

lemma parse_tag_italic_off:
  "parse_tag ''</i>'' st = Some (if italic st then st\<lparr>italic := False\<rparr> else st)"
  "parse_tag [CHR ''{'', BSL, CHR ''i'', CHR ''0'', CHR ''}''] st =
     Some (if italic st then st\<lparr>italic := False\<rparr> else st)"
  by (simp_all add: tag_eval)

lemma parse_bold_example:
  "formatted_lines [''</b><b>x</b></b>y''] =
     Some [[mk_SubtitleText ''x'' BOLD_FONT (- 1), mk_SubtitleText ''y'' NORMAL_FONT (- 1)]]"
  by (simp add: parse_eval)

text \<open>
  C1. In every tag state, the tag \<^verbatim>\<open><b>\<close> or \<^verbatim>\<open>{\b1}\<close> sets \<open>bold\<close> to true
  whatever it was; \<^verbatim>\<open></b>\<close> or \<^verbatim>\<open>{\b0}\<close> sets \<open>bold\<close> to false when it is
  true and otherwise leaves the whole state as it is, without an error; \<^verbatim>\<open><i>\<close>,
  \<^verbatim>\<open>{\i1}\<close>, \<^verbatim>\<open></i>\<close> and \<^verbatim>\<open>{\i0}\<close> do the same to \<open>italic\<close>. The line
  \<^verbatim>\<open></b><b>x</b></b>y\<close> parses to exactly the two runs \<open>x\<close> in the bold font and
  \<open>y\<close> in the normal font (both in the default colour \<open>-1\<close>).
\<close>

theorem bold_italic_tags:
  "parse_tag ''<b>'' st = Some (st\<lparr>bold := True\<rparr>) \<and>
   parse_tag [CHR ''{'', BSL, CHR ''b'', CHR ''1'', CHR ''}''] st = Some (st\<lparr>bold := True\<rparr>) \<and>
   parse_tag ''</b>'' st = Some (if bold st then st\<lparr>bold := False\<rparr> else st) \<and>
   parse_tag [CHR ''{'', BSL, CHR ''b'', CHR ''0'', CHR ''}''] st =
     Some (if bold st then st\<lparr>bold := False\<rparr> else st) \<and>
   parse_tag ''<i>'' st = Some (st\<lparr>italic := True\<rparr>) \<and>
   parse_tag [CHR ''{'', BSL, CHR ''i'', CHR ''1'', CHR ''}''] st = Some (st\<lparr>italic := True\<rparr>) \<and>
   parse_tag ''</i>'' st = Some (if italic st then st\<lparr>italic := False\<rparr> else st) \<and>
   parse_tag [CHR ''{'', BSL, CHR ''i'', CHR ''0'', CHR ''}''] st =
     Some (if italic st then st\<lparr>italic := False\<rparr> else st) \<and>
   formatted_lines [''</b><b>x</b></b>y''] =
     Some [[mk_SubtitleText ''x'' BOLD_FONT (- 1), mk_SubtitleText ''y'' NORMAL_FONT (- 1)]]"
  using parse_tag_bold_on[of st] parse_tag_bold_off[of st] parse_tag_italic_on[of st]
    parse_tag_italic_off[of st] parse_bold_example
  by blast

subsection \<open>The curly colour tag\<close>

lemma lower_hex_facts:
  "is_lower_hex c \<Longrightarrow> c \<noteq> CHR 0x00 \<and> to_lower_char c = c \<and> is_hex_caseless c"
  by (auto simp: is_lower_hex_def to_lower_char_def is_hex_caseless_def)

lemma parse_tag_curly_color:
  assumes "list_all is_lower_hex [b1, b2, g1, g2, r1, r2]"
  shows "parse_tag [CHR ''{'', BSL, CHR ''c'', CHR ''&'', CHR ''h'',
                    b1, b2, g1, g2, r1, r2, CHR ''&'', CHR ''}''] st =
         Some (st\<lparr>cur_color :=
                 65536 * (16 * hex_digit_value r1 + hex_digit_value r2) +
                 256 * (16 * hex_digit_value g1 + hex_digit_value g2) +
                 (16 * hex_digit_value b1 + hex_digit_value b2)\<rparr>)"
proof -
  from assms have h: "is_lower_hex b1" "is_lower_hex b2" "is_lower_hex g1" "is_lower_hex g2"
    "is_lower_hex r1" "is_lower_hex r2" by simp_all
  note f = h[THEN lower_hex_facts]
  have cs: "c_str [r1, r2, g1, g2, b1, b2] = [r1, r2, g1, g2, b1, b2]"
    using f by (simp add: c_str_def)
  have m: "curly_color_RegFind [CHR ''{'', BSL, CHR ''c'', CHR ''&'', CHR ''h'',
             b1, b2, g1, g2, r1, r2, CHR ''&'', CHR ''}''] = Some ([b1, b2], [g1, g2], [r1, r2])"
    using f by (simp add: curly_color_RegFind_def c_str_def Let_def to_lower_char_def)
  show ?thesis
    by (simp add: parse_tag_def substr_def m cs hex2int_six push_bit_eq_mult)
qed

lemma byte_value_range:
  "is_lower_hex c \<Longrightarrow> is_lower_hex d \<Longrightarrow>
     0 \<le> 16 * hex_digit_value c + hex_digit_value d \<and>
     16 * hex_digit_value c + hex_digit_value d < 256"
  using hex_digit_value_range[of c] hex_digit_value_range[of d] by simp

lemma parse_curly_color_example:
  "formatted_lines [[CHR ''{'', BSL] @ ''c&h0000ff&}x''] =
     Some [[mk_SubtitleText ''x'' NORMAL_FONT 0xff0000]]"
  by (simp add: parse_eval)

text \<open>
  C2. For every curly colour tag \<^verbatim>\<open>{\c&hBBGGRR&}\<close> whose three groups are two
  lowercase hexadecimal digits each, the parser sets the current colour to the 24-bit
  integer \<open>65536 * RR + 256 * GG + BB\<close>, the three bytes in the reverse of the order
  in which the tag gives them, and changes nothing else; each byte is below 256. The
  line \<^verbatim>\<open>{\c&h0000ff&}x\<close> parses to the one run \<open>x\<close> of colour \<open>0xff0000\<close>.
\<close>

theorem curly_color_tag:
  assumes "list_all is_lower_hex [b1, b2, g1, g2, r1, r2]"
  shows "parse_tag [CHR ''{'', BSL, CHR ''c'', CHR ''&'', CHR ''h'',
                    b1, b2, g1, g2, r1, r2, CHR ''&'', CHR ''}''] st =
         Some (st\<lparr>cur_color :=
                 65536 * (16 * hex_digit_value r1 + hex_digit_value r2) +
                 256 * (16 * hex_digit_value g1 + hex_digit_value g2) +
                 (16 * hex_digit_value b1 + hex_digit_value b2)\<rparr>) \<and>
         0 \<le> 16 * hex_digit_value r1 + hex_digit_value r2 \<and>
         16 * hex_digit_value r1 + hex_digit_value r2 < 256 \<and>
         0 \<le> 16 * hex_digit_value g1 + hex_digit_value g2 \<and>
         16 * hex_digit_value g1 + hex_digit_value g2 < 256 \<and>
         0 \<le> 16 * hex_digit_value b1 + hex_digit_value b2 \<and>
         16 * hex_digit_value b1 + hex_digit_value b2 < 256 \<and>
         formatted_lines [[CHR ''{'', BSL] @ ''c&h0000ff&}x''] =
           Some [[mk_SubtitleText ''x'' NORMAL_FONT 0xff0000]]"
proof -
  from assms have h: "is_lower_hex b1" "is_lower_hex b2" "is_lower_hex g1" "is_lower_hex g2"
    "is_lower_hex r1" "is_lower_hex r2" by simp_all
  from parse_tag_curly_color[OF assms, of st] byte_value_range[OF h(5,6)]
    byte_value_range[OF h(3,4)] byte_value_range[OF h(1,2)] parse_curly_color_example
  show ?thesis by blast
qed

theorem curly_color_tag_witness:
  "list_all is_lower_hex ''0000ff'' \<and>
   parse_tag ([CHR ''{'', BSL] @ ''c&h0000ff&}'') initial_tag_state =
     Some (initial_tag_state\<lparr>cur_color := 0xff0000\<rparr>)"
proof -
  have h: "list_all is_lower_hex [CHR ''0'', CHR ''0'', CHR ''0'', CHR ''0'', CHR ''f'', CHR ''f'']"
    by (simp add: is_lower_hex_def)
  from h curly_color_tag[OF h, of initial_tag_state] show ?thesis
    by (simp add: hex_digit_value_def)
qed

subsection \<open>The parser neither throws nor reads out of bounds\<close>

lemma hex2int_length_six: "length s = 6 \<Longrightarrow> hex2int s \<noteq> None"
  using length_six[of s] hex2int_six by auto

lemma hex_caseless_not_nul: "is_hex_caseless c \<Longrightarrow> c \<noteq> CHR 0x00"
  by (auto simp: is_hex_caseless_def is_lower_hex_def to_lower_char_def split: if_splits)

lemma c_str_hex: "list_all is_hex_caseless s \<Longrightarrow> c_str s = s"
  unfolding c_str_def by (induction s) (auto simp: hex_caseless_not_nul)

lemma html_color_at_six: "html_color_at s = Some h \<Longrightarrow> length h = 6 \<and> list_all is_hex_caseless h"
  by (auto simp: html_color_at_def Let_def split: if_splits list.splits)

lemma html_color_search_six:
  "html_color_search s = Some h \<Longrightarrow> length h = 6 \<and> list_all is_hex_caseless h"
  by (induction s) (auto split: option.splits dest: html_color_at_six)

lemma html_color_RegFind_six:
  "html_color_RegFind s k = Some h \<Longrightarrow> length h = 6 \<and> list_all is_hex_caseless h"
  by (auto simp: html_color_RegFind_def Let_def split: if_splits dest: html_color_search_six)

lemma curly_color_RegFind_six:
  assumes "curly_color_RegFind s = Some (g1, g2, g3)"
  shows "length (g3 @ g2 @ g1) = 6 \<and> list_all is_hex_caseless (g3 @ g2 @ g1)"
proof -
  define t where "t = (if length (c_str s) = 14 \<and> last (c_str s) = CHR 0x0A then butlast (c_str s) else c_str s)"
  from assms have l: "length t = 13" and h: "list_all is_hex_caseless (take 6 (drop 5 t))"
    and g: "g1 = take 2 (drop 5 t)" "g2 = take 2 (drop 7 t)" "g3 = take 2 (drop 9 t)"
    unfolding curly_color_RegFind_def Let_def t_def[symmetric] by (auto split: if_splits)
  have s1: "take 6 (drop 5 t) = take 2 (drop 5 t) @ take 4 (drop 7 t)"
    using take_add[of 2 4 "drop 5 t"] by simp
  have s2: "take 4 (drop 7 t) = take 2 (drop 7 t) @ take 2 (drop 9 t)"
    using take_add[of 2 2 "drop 7 t"] by simp
  have s: "take 6 (drop 5 t) = g1 @ g2 @ g3"
    unfolding g s1 s2 by simp
  show ?thesis using h l unfolding s by (auto simp: g)
qed
lemma parse_tag_total: "\<exists>st'. parse_tag tag st = Some st'"
proof -
  have h: "\<exists>st'. map_option (\<lambda>v. st\<lparr>cur_color := v\<rparr>) (hex2int (c_str h)) = Some st'"
    if "length h = 6 \<and> list_all is_hex_caseless h" for h
    using that hex2int_length_six[of h] by (auto simp: c_str_hex)
  show ?thesis
    unfolding parse_tag_def
    using h html_color_RegFind_six curly_color_RegFind_six
    by (auto split: option.splits prod.splits)
qed

lemma size_t_id: "0 \<le> n \<Longrightarrow> n < 2 ^ 32 \<Longrightarrow> size_t n = nat n"
  by (simp add: size_t_def)

lemma substr_total: "pos \<le> length s \<Longrightarrow> \<exists>t. substr s pos n = Some t"
  by (simp add: substr_def)

lemma tags_RegFind_offset: "tags_RegFind line pos = Some q \<Longrightarrow> 0 \<le> pos"
  by (auto simp: tags_RegFind_def Let_def split: if_splits)

lemma parse_line_loop_total:
  "0 \<le> old_pos \<Longrightarrow> old_pos \<le> int (length line) \<Longrightarrow> length line < 2 ^ 31 \<Longrightarrow>
     \<exists>res. parse_line_loop line pos old_pos st out = Some res"
proof (induction line pos old_pos st out rule: parse_line_loop.induct)
  case (1 line pos old_pos st out)
  have so: "size_t old_pos = nat old_pos" using "1.prems" by (intro size_t_id) simp_all
  have sub: "\<exists>t. substr line (size_t old_pos) n = Some t" for n
    unfolding so using "1.prems" by (intro substr_total) simp
  show ?case
  proof (cases "pos < int (length line)")
    case False
    then show ?thesis by (subst parse_line_loop.simps) simp
  next
    case True
    show ?thesis
    proof (cases "tags_RegFind line pos")
      case None
      obtain t where "substr line (size_t old_pos) (size_t (- 1 - old_pos)) = Some t"
        using sub by blast
      with True None show ?thesis by (subst parse_line_loop.simps) simp
    next
      case (Some q)
      obtain p m where q: "q = (p, m)" by (cases q) auto
      note b = tags_RegFind_bounds[OF Some[unfolded q]]
      obtain t where t: "substr line (size_t old_pos) (size_t (p - old_pos)) = Some t"
        using sub by blast
      define out' where "out' = (if p \<noteq> old_pos then out @ [mk_SubtitleText t (font_of st) (cur_color st)] else out)"
      obtain st' where st': "parse_tag (to_lower m) st = Some st'"
        using parse_tag_total by blast
      let ?n = "p + int (length (to_lower m))"
      have o: "(if p \<noteq> old_pos
                then map_option (\<lambda>t. out @ [mk_SubtitleText t (font_of st) (cur_color st)])
                       (substr line (size_t old_pos) (size_t (p - old_pos)))
                else Some out) = Some out'"
        by (simp add: t out'_def)
      have n: "0 \<le> ?n" "?n \<le> int (length line)"
        using b tags_RegFind_offset[OF Some] by (simp_all add: to_lower_def)
      have IH: "\<exists>res. parse_line_loop line ?n ?n st' out' = Some res"
        using "1.IH"[OF True Some q[symmetric] o st' n "1.prems"(3)] .
      have "parse_line_loop line pos old_pos st out = parse_line_loop line ?n ?n st' out'"
        by (subst parse_line_loop.simps) (simp add: True Some q o st')
      with IH show ?thesis by simp
    qed
  qed
qed

lemma parse_line_loop_start:
  "length line < 2 ^ 31 \<Longrightarrow> \<exists>res. parse_line_loop line 0 0 st [] = Some res"
  by (rule parse_line_loop_total) simp_all

lemma trim_length: "length (trim s) \<le> length s"
  unfolding trim_def
  by (metis length_dropWhile_le length_rev order_trans)

lemma parse_lines_loop_total:
  "\<forall>l\<in>set ls. length l < 2 ^ 31 \<Longrightarrow>
     \<exists>pl. parse_lines_loop ls st = Some pl \<and> length pl = length ls"
proof (induction ls arbitrary: st)
  case Nil
  then show ?case by simp
next
  case (Cons l ls)
  have "length (trim l) < 2 ^ 31"
    using Cons.prems trim_length[of l] by (simp add: order_le_less_trans)
  from parse_line_loop_start[OF this, of st] obtain st' runs where
    r: "parse_line_loop (trim l) 0 0 st [] = Some (st', runs)" by auto
  from Cons.IH[of st'] Cons.prems obtain pl where
    "parse_lines_loop ls st' = Some pl" "length pl = length ls" by auto
  with r show ?case by simp
qed

lemma formatted_lines_total:
  "\<forall>l\<in>set lines. length l < 2 ^ 31 \<Longrightarrow>
     \<exists>pl. formatted_lines lines = Some pl \<and> length pl = length lines"
  unfolding formatted_lines_def by (rule parse_lines_loop_total)

section \<open>Properties of the canvas geometry\<close>

lemma and_not_15: "(x::int) AND NOT 15 = 16 * (x div 16)"
proof -
  have "x AND NOT (mask 4) = push_bit 4 (drop_bit 4 x)"
    by (auto simp add: bit_eq_iff bit_and_iff bit_not_iff bit_mask_iff bit_push_bit_iff
        bit_drop_bit_eq)
  then show ?thesis
    by (simp add: push_bit_eq_mult drop_bit_eq_div mask_eq_exp_minus_1)
qed

lemma smod_16_mult: "(16 * k) smod 16 = (0::int)"
  by (simp add: smod_int_alt_def)

lemma wrap32_id: "- 2147483648 \<le> x \<Longrightarrow> x < 2147483648 \<Longrightarrow> wrap32 x = x"
  unfolding wrap32_def by (rule signed_take_bit_int_eq_self) simp_all

lemma round_down_16: "16 * (x div 16) \<le> (x::int) \<and> x < 16 * (x div 16) + 16"
proof -
  define q where "q = x div 16"
  define r where "r = x mod 16"
  have "x = 16 * q + r" "0 \<le> r" "r < 16" by (simp_all add: q_def r_def)
  then show ?thesis unfolding q_def[symmetric] by simp
qed

lemma geom_fields:
  "m_image_height (SubtitleRenderer_geometry fp sw sh c b l) =
     wrap32 (wrap32 (wrap32 (wrap32 l *
        wrap32 (wrap32 (mul_font_size fp sh) + wrap32 (mul_font_size fp sh) sdiv 4)) + 5) + 15)
     AND NOT 15"
  "m_image_width (SubtitleRenderer_geometry fp sw sh c b l) = wrap32 (sw - 100) AND NOT 15"
  by (simp_all add: SubtitleRenderer_geometry_def Let_def)

lemma sdiv4_bounds:
  assumes "- 268435456 \<le> (x::int)" "x < 268435456"
  shows "- 67108864 \<le> x sdiv 4 \<and> x sdiv 4 \<le> 67108864"
proof (cases "0 \<le> x")
  case True
  then have "x sdiv 4 = x div 4" by (simp add: signed_divide_int_def sgn_if)
  moreover have "0 \<le> x div 4" using True by (simp add: pos_imp_zdiv_nonneg_iff)
  moreover have "x div 4 \<le> 268435456 div 4" using assms(2) by (intro zdiv_mono1) simp_all
  ultimately show ?thesis by simp
next
  case False
  then have "x sdiv 4 = - ((- x) div 4)" by (simp add: signed_divide_int_def sgn_if)
  moreover have "0 \<le> (- x) div 4" using False by (simp add: pos_imp_zdiv_nonneg_iff)
  moreover have "(- x) div 4 \<le> 268435456 div 4" using assms(1) by (intro zdiv_mono1) simp_all
  ultimately show ?thesis by simp
qed

lemma image_height_no_overflow:
  assumes l: "1 \<le> l" "l \<le> 4"
    and fs: "- 268435456 \<le> mul_font_size fp sh" "mul_font_size fp sh < 268435456"
  shows "m_image_height (SubtitleRenderer_geometry fp sw sh c b l) =
           16 * ((l * (mul_font_size fp sh + mul_font_size fp sh sdiv 4) + 5 + 15) div 16)"
proof -
  define f where "f = mul_font_size fp sh"
  define p where "p = f sdiv 4"
  define h where "h = f + p"
  have wf: "wrap32 f = f" using fs by (simp add: wrap32_id f_def)
  have pb: "- 67108864 \<le> p" "p \<le> 67108864"
    using sdiv4_bounds[of f] fs by (simp_all add: p_def f_def)
  have hb: "- 335544320 \<le> h" "h \<le> 335544320" using pb fs by (simp_all add: h_def f_def)
  have wh: "wrap32 (f + p) = h" using hb by (simp add: wrap32_id h_def)
  have wl: "wrap32 l = l" using l by (simp add: wrap32_id)
  from l have "l = 1 \<or> l = 2 \<or> l = 3 \<or> l = 4" by arith
  then have mb: "- 1342177280 \<le> l * h \<and> l * h \<le> 1342177280" using hb by auto
  have w1: "wrap32 (l * h) = l * h" using mb by (simp add: wrap32_id)
  have w2: "wrap32 (l * h + 5) = l * h + 5" using mb by (simp add: wrap32_id)
  have w3: "wrap32 (l * h + 5 + 15) = l * h + 5 + 15" using mb by (simp add: wrap32_id)
  show ?thesis
    unfolding geom_fields f_def[symmetric] wf p_def[symmetric] wh wl w1 w2 w3 and_not_15
    unfolding h_def by (rule refl)
qed

lemma image_width_no_overflow:
  assumes "200 < sw" "sw < 2147483648"
  shows "m_image_width (SubtitleRenderer_geometry fp sw sh c b l) = 16 * ((sw - 100) div 16)"
proof -
  have "wrap32 (sw - 100) = sw - 100" using assms by (simp add: wrap32_id)
  then show ?thesis unfolding geom_fields and_not_15 by simp
qed

text \<open>
  C3. For all screen dimensions above 200 (and inside \<^verbatim>\<open>int\<close>), every result of the
  floating-point product that gives the font size, and every \<^verbatim>\<open>max_lines\<close> from 1
  to 4: \<^verbatim>\<open>image_height % 16 == 0\<close> and \<^verbatim>\<open>image_width % 16 == 0\<close>; the width is
  \<^verbatim>\<open>screen_width - 100\<close> rounded down to a multiple of 16 (it is at most that number
  and less than 16 below it); and, when the font size is below \<open>2 ^ 28\<close> in absolute
  value, so that nothing wraps around, the height is
  \<^verbatim>\<open>max_lines * line_height + 5\<close> rounded up to a multiple of 16 (it is at least that
  number and less than 16 above it), with \<^verbatim>\<open>line_height = font_size + font_size / 4\<close>.
\<close>

theorem geometry_alignment:
  assumes "200 < screen_width" and "screen_width < 2 ^ 31"
    and "200 < screen_height" and "screen_height < 2 ^ 31"
    and "1 \<le> lines" and "lines \<le> 4"
  shows "m_image_height (SubtitleRenderer_geometry fp screen_width screen_height c b lines)
           smod 16 = 0 \<and>
         m_image_width (SubtitleRenderer_geometry fp screen_width screen_height c b lines)
           smod 16 = 0 \<and>
         m_image_width (SubtitleRenderer_geometry fp screen_width screen_height c b lines)
           \<le> screen_width - 100 \<and>
         screen_width - 100 <
           m_image_width (SubtitleRenderer_geometry fp screen_width screen_height c b lines) + 16 \<and>
         (- (2 ^ 28) \<le> mul_font_size fp screen_height \<and> mul_font_size fp screen_height < 2 ^ 28
            \<longrightarrow>
            lines * (mul_font_size fp screen_height + mul_font_size fp screen_height sdiv 4) + 5
              \<le> m_image_height (SubtitleRenderer_geometry fp screen_width screen_height c b lines) \<and>
            m_image_height (SubtitleRenderer_geometry fp screen_width screen_height c b lines)
              < lines * (mul_font_size fp screen_height + mul_font_size fp screen_height sdiv 4)
                + 5 + 16)"
proof -
  let ?g = "SubtitleRenderer_geometry fp screen_width screen_height c b lines"
  let ?f = "mul_font_size fp screen_height"
  have h16: "m_image_height ?g smod 16 = 0"
    unfolding geom_fields and_not_15 by (rule smod_16_mult)
  have w16: "m_image_width ?g smod 16 = 0"
    unfolding geom_fields and_not_15 by (rule smod_16_mult)
  have w: "m_image_width ?g = 16 * ((screen_width - 100) div 16)"
    using assms(1,2) by (intro image_width_no_overflow) simp_all
  have wr: "m_image_width ?g \<le> screen_width - 100 \<and> screen_width - 100 < m_image_width ?g + 16"
    unfolding w by (rule round_down_16)
  have hr: "lines * (?f + ?f sdiv 4) + 5 \<le> m_image_height ?g \<and>
            m_image_height ?g < lines * (?f + ?f sdiv 4) + 5 + 16"
    if "- (2 ^ 28) \<le> ?f \<and> ?f < 2 ^ 28"
  proof -
    define x where "x = lines * (?f + ?f sdiv 4) + 5"
    from that have "m_image_height ?g = 16 * ((x + 15) div 16)"
      unfolding x_def using assms(5,6) by (intro image_height_no_overflow) simp_all
    with round_down_16[of "x + 15"] show ?thesis unfolding x_def[symmetric] by simp
  qed
  from h16 w16 wr hr show ?thesis by blast
qed

theorem geometry_alignment_witness:
  "(200::int) < 1920 \<and> (1920::int) < 2 ^ 31 \<and> (200::int) < 1080 \<and> (1080::int) < 2 ^ 31 \<and>
   (1::int) \<le> 3 \<and> (3::int) \<le> 4 \<and>
   - (2 ^ 28) \<le> mul_font_size fpu_1080 1080 \<and> mul_font_size fpu_1080 1080 < 2 ^ 28 \<and>
   m_image_height (SubtitleRenderer_geometry fpu_1080 1920 1080 True False 3) smod 16 = 0 \<and>
   m_image_width (SubtitleRenderer_geometry fpu_1080 1920 1080 True False 3) smod 16 = 0 \<and>
   m_image_width (SubtitleRenderer_geometry fpu_1080 1920 1080 True False 3) \<le> 1920 - 100 \<and>
   1920 - 100 < m_image_width (SubtitleRenderer_geometry fpu_1080 1920 1080 True False 3) + 16 \<and>
   3 * (59 + 59 sdiv 4) + 5
     \<le> m_image_height (SubtitleRenderer_geometry fpu_1080 1920 1080 True False 3) \<and>
   m_image_height (SubtitleRenderer_geometry fpu_1080 1920 1080 True False 3)
     < 3 * (59 + 59 sdiv 4) + 5 + 16 \<and>
   m_image_height (SubtitleRenderer_geometry fpu_1080 1920 1080 True False 3) = 224 \<and>
   m_image_width (SubtitleRenderer_geometry fpu_1080 1920 1080 True False 3) = 1808"
proof -
  have g: "m_image_height (SubtitleRenderer_geometry fpu_1080 1920 1080 True False 3) = 224"
    "m_image_width (SubtitleRenderer_geometry fpu_1080 1920 1080 True False 3) = 1808"
    by (simp_all add: geom_fields fpu_1080_def wrap32_def signed_divide_int_def)
  have f: "mul_font_size fpu_1080 1080 = 59" by (simp add: fpu_1080_def)
  from geometry_alignment[of 1920 1080 3 fpu_1080 True False, unfolded f] g f show ?thesis
    by simp
qed

section \<open>Properties of the bitmap placement\<close>

lemma geometry_1080:
  "SubtitleRenderer_geometry fpu_1080 1920 1080 True True 3 =
     \<lparr>m_centered = True, m_ghost_box = True, m_max_lines = 3, m_font_size = 59,
      m_padding = 14, m_image_width = 1808, m_image_height = 224,
      left_margin = 56, top_margin = 820, left_aligned_margin = 254,
      m_scaled_image_width = 643, m_scaled_image_height = 113, m_scaled_padding = 7\<rparr>"
  by (simp add: SubtitleRenderer_geometry_def fpu_1080_def Let_def wrap32_def
      signed_divide_int_def)

text \<open>
  A bitmap that fails the first test (a side below 1 or larger than the scaled canvas) is
  dropped before anything is allocated: the renderer is unchanged.
\<close>

lemma bitmap_early_rejection:
  "sub_width < 1 \<or> sub_width > m_scaled_image_width (geom r) \<or>
   sub_height < 1 \<or> sub_height > m_scaled_image_height (geom r)
   \<Longrightarrow> make_subtitle_image_bitmap sub_width sub_height pixels r = Some r"
  by (simp add: make_subtitle_image_bitmap_def Let_def)

text \<open>
  A bitmap that passes the first test and fails the second (a negative padding) is
  dropped after the buffer has been allocated: the buffer stays allocated, it is the new
  value of \<^verbatim>\<open>other_image_data\<close>, and the flag is not set, so that neither
  \<^verbatim>\<open>unprepare\<close> nor anything else releases it.
\<close>

lemma bitmap_late_rejection:
  assumes "1 \<le> sub_width" "sub_width \<le> m_scaled_image_width (geom r)"
    and "1 \<le> sub_height" "sub_height \<le> m_scaled_image_height (geom r)"
    and "m_scaled_padding (geom r) < 0 \<or>
         top_padding (m_scaled_image_height (geom r)) sub_height (m_scaled_padding (geom r)) < 0"
  shows "make_subtitle_image_bitmap sub_width sub_height pixels r =
           Some (r\<lparr>other_image_data :=
                     \<lparr>capacity = size_t (wrap32 (m_scaled_image_width (geom r) *
                                                  m_scaled_image_height (geom r))),
                      written = []\<rparr>,
                    heap := (heap r)\<lparr>live_buffers := live_buffers (heap r) + 1\<rparr>\<rparr>)"
  using assms by (auto simp: make_subtitle_image_bitmap_def Let_def)

text \<open>
  C5 (evaluation at the failing input). On the 643 by 113 scaled canvas with a bottom
  padding of 7, a bitmap 10 wide and 113 high passes the first test; its top padding is
  \<open>-7\<close>, so it is dropped by the second test. The renderer is not left unchanged:
  a buffer of 72659 bytes has been allocated and assigned to \<^verbatim>\<open>other_image_data\<close>,
  no frame is marked as prepared, and the buffer is still allocated after
  \<^verbatim>\<open>unprepare\<close>.
\<close>

theorem bitmap_rejected_after_allocation:
  "top_padding 113 113 7 = - 7 \<and>
   make_subtitle_image_bitmap 10 113 (replicate 1130 0) renderer_1080 =
     Some (renderer_1080\<lparr>other_image_data := \<lparr>capacity = 72659, written = []\<rparr>,
                          heap := empty_heap\<lparr>live_buffers := 1\<rparr>\<rparr>) \<and>
   renderer_1080\<lparr>other_image_data := \<lparr>capacity = 72659, written = []\<rparr>,
                 heap := empty_heap\<lparr>live_buffers := 1\<rparr>\<rparr> \<noteq> renderer_1080 \<and>
   live_buffers (heap (unprepare
     (renderer_1080\<lparr>other_image_data := \<lparr>capacity = 72659, written = []\<rparr>,
                    heap := empty_heap\<lparr>live_buffers := 1\<rparr>\<rparr>))) = 1 \<and>
   live_buffers (heap renderer_1080) = 0"
  by (simp add: make_subtitle_image_bitmap_def renderer_1080_def new_renderer_def geometry_1080
      Let_def left_padding_def right_padding_def top_padding_def signed_divide_int_def
      size_t_def wrap32_def empty_heap_def unprepare_def)

subsection \<open>The horizontal paddings\<close>

lemma sdiv2_nonneg: "0 \<le> (x::int) \<Longrightarrow> x sdiv 2 = x div 2"
  by (simp add: signed_divide_int_def sgn_if)

lemma padding_parity:
  assumes "1 \<le> w" "w \<le> W"
  shows "left_padding W w + w + right_padding W w = W"
    and "0 \<le> left_padding W w" and "0 \<le> right_padding W w"
    and "even (W - w) \<Longrightarrow> right_padding W w = left_padding W w"
    and "odd (W - w) \<Longrightarrow> odd W \<Longrightarrow> right_padding W w = left_padding W w + 1"
    and "odd (W - w) \<Longrightarrow> even W \<Longrightarrow> right_padding W w = left_padding W w - 1"
  using assms unfolding left_padding_def right_padding_def
  by (simp_all add: sdiv2_nonneg; presburger)+

lemma copy_rows_layout:
  "copy_rows l w r px j n = Some rows \<Longrightarrow>
     rows = concat (map (\<lambda>i. padded_row l w r px (j + int i)) [0..<n])"
proof (induction n arbitrary: j rows)
  case 0
  then show ?case by simp
next
  case (Suc n)
  from Suc.prems obtain row rest where
    row: "src_read px (nat (j * w)) (nat w) = Some row"
    and rest: "copy_rows l w r px (j + 1) n = Some rest"
    and rows: "rows = replicate (nat l) 0 @ row @ replicate (nat r) 0 @ rest"
    by (auto split: option.splits)
  from row have row': "row = take (nat w) (drop (nat (j * w)) (px @ [0]))"
    by (auto simp: src_read_def split: if_splits)
  have u: "[0..<Suc n] = 0 # map Suc [0..<n]"
    by (simp add: upt_conv_Cons map_Suc_upt del: upt_Suc)
  have f: "(\<lambda>i. padded_row l w r px (j + 1 + int i)) =
           (\<lambda>i. padded_row l w r px (j + int (Suc i)))"
  proof -
    have e: "\<And>i::nat. j + 1 + int i = j + int (Suc i)" by simp
    show ?thesis unfolding e by (rule refl)
  qed
  have h: "replicate (nat l) 0 @ row @ replicate (nat r) 0 = padded_row l w r px (j + int 0)"
    unfolding row' padded_row_def by simp
  show ?case
    unfolding rows Suc.IH[OF rest] u f
    using h by (simp add: comp_def del: upt_Suc)
qed

lemma accepted_bitmap:
  assumes "make_subtitle_image_bitmap w h px r = Some r'"
    and "\<not> m_prepared_from_image r" and "m_prepared_from_image r'"
  shows "1 \<le> w \<and> w \<le> m_scaled_image_width (geom r) \<and>
         1 \<le> h \<and> h \<le> m_scaled_image_height (geom r) \<and>
         0 \<le> m_scaled_padding (geom r) \<and>
         0 \<le> top_padding (m_scaled_image_height (geom r)) h (m_scaled_padding (geom r)) \<and>
         written (other_image_data r') =
           replicate (nat (top_padding (m_scaled_image_height (geom r)) h
                             (m_scaled_padding (geom r)) * m_scaled_image_width (geom r))) 0 @
           concat (map (\<lambda>i. padded_row (left_padding (m_scaled_image_width (geom r)) w) w
                               (right_padding (m_scaled_image_width (geom r)) w) px (int i))
                       [0..<nat h]) @
           replicate (nat (m_scaled_padding (geom r) * m_scaled_image_width (geom r))) 0"
  using assms
    copy_rows_layout[of "left_padding (m_scaled_image_width (geom r)) w" w
      "right_padding (m_scaled_image_width (geom r)) w" px 0 "nat h"]
  by (auto simp: make_subtitle_image_bitmap_def Let_def split: if_splits option.splits)

lemma accepted_3x1_eval:
  "make_subtitle_image_bitmap 3 1 [1, 2, 3] (new_renderer geometry_10x20) = Some accepted_3x1"
  by (simp add: make_subtitle_image_bitmap_def new_renderer_def geometry_10x20_def Let_def
      left_padding_def right_padding_def top_padding_def signed_divide_int_def size_t_def
      wrap32_def empty_heap_def accepted_3x1_def src_read_def)

text \<open>
  C6 as stated fails: on a scaled canvas 10 wide, a bitmap 3 wide is accepted, the slack
  7 is odd, and the paddings are 4 on the left and 3 on the right: the extra pixel is on
  the left.
\<close>

theorem padding_extra_pixel_counterexample:
  "make_subtitle_image_bitmap 3 1 [1, 2, 3] (new_renderer geometry_10x20) = Some accepted_3x1 \<and>
   m_prepared_from_image accepted_3x1 \<and>
   m_scaled_image_width (geom (new_renderer geometry_10x20)) = 10 \<and>
   odd ((10::int) - 3) \<and>
   left_padding 10 3 = 4 \<and> right_padding 10 3 = 3 \<and>
   right_padding 10 3 \<noteq> left_padding 10 3 + 1 \<and>
   written (other_image_data accepted_3x1) =
     replicate 170 0 @ (replicate 4 0 @ [1, 2, 3] @ replicate 3 0) @ replicate 20 0"
  using accepted_3x1_eval
  by (simp add: accepted_3x1_def new_renderer_def geometry_10x20_def left_padding_def
      right_padding_def signed_divide_int_def)

text \<open>
  C6, amended. For every accepted bitmap (the call sets \<^verbatim>\<open>m_prepared_from_image\<close>)
  on a scaled canvas \<open>W\<close> wide: \<open>left_padding = W / 2 - sub_width / 2\<close>,
  \<open>right_padding = W - sub_width - left_padding\<close>, both are at least 0 and
  \<open>left_padding + sub_width + right_padding = W\<close>; every row of the bitmap is
  written between \<open>left_padding\<close> and \<open>right_padding\<close> blank bytes. When the
  slack \<open>W - sub_width\<close> is even the two paddings are equal; when it is odd they
  differ by one, and the extra pixel is on the right (\<open>right_padding =
  left_padding + 1\<close>) if \<open>W\<close> is odd and on the left (\<open>right_padding =
  left_padding - 1\<close>) if \<open>W\<close> is even.
\<close>

theorem padding_of_accepted_bitmap:
  assumes "make_subtitle_image_bitmap w h px r = Some r'"
    and "\<not> m_prepared_from_image r" and "m_prepared_from_image r'"
    and "W = m_scaled_image_width (geom r)"
  shows "left_padding W w = W sdiv 2 - w sdiv 2 \<and>
         right_padding W w = W - w - left_padding W w \<and>
         0 \<le> left_padding W w \<and> 0 \<le> right_padding W w \<and>
         left_padding W w + w + right_padding W w = W \<and>
         (even (W - w) \<longrightarrow> right_padding W w = left_padding W w) \<and>
         (odd (W - w) \<and> odd W \<longrightarrow> right_padding W w = left_padding W w + 1) \<and>
         (odd (W - w) \<and> even W \<longrightarrow> right_padding W w = left_padding W w - 1) \<and>
         written (other_image_data r') =
           replicate (nat (top_padding (m_scaled_image_height (geom r)) h
                             (m_scaled_padding (geom r)) * W)) 0 @
           concat (map (\<lambda>i. padded_row (left_padding W w) w (right_padding W w) px (int i))
                       [0..<nat h]) @
           replicate (nat (m_scaled_padding (geom r) * W)) 0"
proof -
  note a = accepted_bitmap[OF assms(1,2,3), folded assms(4)]
  from a have w: "1 \<le> w" "w \<le> W" by simp_all
  note p = padding_parity[OF w]
  have d: "left_padding W w = W sdiv 2 - w sdiv 2"
    "right_padding W w = W - w - left_padding W w"
    by (simp_all add: left_padding_def right_padding_def)
  from a have wr: "written (other_image_data r') =
           replicate (nat (top_padding (m_scaled_image_height (geom r)) h
                             (m_scaled_padding (geom r)) * W)) 0 @
           concat (map (\<lambda>i. padded_row (left_padding W w) w (right_padding W w) px (int i))
                       [0..<nat h]) @
           replicate (nat (m_scaled_padding (geom r) * W)) 0"
    by blast
  from d p wr show ?thesis by blast
qed

theorem padding_of_accepted_bitmap_witness:
  "make_subtitle_image_bitmap 3 1 [1, 2, 3] (new_renderer geometry_10x20) = Some accepted_3x1 \<and>
   \<not> m_prepared_from_image (new_renderer geometry_10x20) \<and>
   m_prepared_from_image accepted_3x1 \<and>
   (10::int) = m_scaled_image_width (geom (new_renderer geometry_10x20)) \<and>
   left_padding 10 3 + 3 + right_padding 10 3 = 10 \<and>
   odd ((10::int) - 3) \<and> even (10::int) \<and>
   right_padding 10 3 = left_padding 10 3 - 1"
proof -
  have a: "\<not> m_prepared_from_image (new_renderer geometry_10x20)"
    "m_prepared_from_image accepted_3x1"
    "(10::int) = m_scaled_image_width (geom (new_renderer geometry_10x20))"
    by (simp_all add: new_renderer_def geometry_10x20_def accepted_3x1_def)
  from padding_of_accepted_bitmap[OF accepted_3x1_eval a] accepted_3x1_eval a
  show ?thesis by simp
qed

section \<open>Properties of the frame life cycle\<close>

text \<open>
  C10. If neither a bitmap frame nor a text frame is prepared, \<^verbatim>\<open>show_next\<close> does
  nothing: the renderer is the same afterwards, so nothing was delivered to a layer, no
  layer was hidden, nothing was released and no frame is prepared.
\<close>

theorem show_next_idle:
  "\<not> m_prepared_from_image r \<Longrightarrow> \<not> m_prepared_from_text r \<Longrightarrow> show_next r = r"
  by (simp add: show_next_def)

theorem show_next_idle_witness:
  "\<not> m_prepared_from_image renderer_1080 \<and> \<not> m_prepared_from_text renderer_1080 \<and>
   show_next renderer_1080 = renderer_1080 \<and>
   subtitleLayer (show_next renderer_1080) = [] \<and> dvdSubLayer (show_next renderer_1080) = [] \<and>
   heap (show_next renderer_1080) = empty_heap"
proof -
  have i: "\<not> m_prepared_from_image renderer_1080" "\<not> m_prepared_from_text renderer_1080"
    by (simp_all add: renderer_1080_def new_renderer_def)
  from show_next_idle[OF i] i show ?thesis
    by (simp add: renderer_1080_def new_renderer_def)
qed

section \<open>Properties of the text layout\<close>

subsection \<open>What the drawing loops change\<close>

lemma text_c_str_glyphs [simp]: "text_c_str (t\<lparr>glyphs := g\<rparr>) = text_c_str t"
  by (simp add: text_c_str_def)

lemma glyph_paths_simps [simp]:
  "glyph_paths [] = []"
  "glyph_paths (xs @ ys) = glyph_paths xs @ glyph_paths ys"
  "glyph_paths [GlyphPath g] = [g]"
  "glyph_paths [SetScaledFont f] = []"
  "glyph_paths [SetSource c] = []"
  "glyph_paths [SetSourceRGBA a b d] = []"
  "glyph_paths [Rectangle x y w h] = []"
  "glyph_paths [Fill] = []"
  "glyph_paths [FillPreserve] = []"
  "glyph_paths [SetLineWidth n] = []"
  "glyph_paths [Stroke] = []"
  by (simp_all add: glyph_paths_def List.map_filter_def)

lemma set_font_props:
  "outside_drawing (set_font f r) = outside_drawing r"
  "live_glyph_arrays (heap (set_font f r)) = live_glyph_arrays (heap r)"
  "drawn_texts (set_font f r) = drawn_texts r"
  "font_in_sync r \<Longrightarrow> font_in_sync (set_font f r)"
  "font_in_sync r \<Longrightarrow> cr_font (m_cr (set_font f r)) = Some f"
  by (auto simp: set_font_def outside_drawing_def drawn_texts_def font_in_sync_def)

lemma cr_emit_props:
  "outside_drawing (cr_emit c r) = outside_drawing r"
  "live_glyph_arrays (heap (cr_emit c r)) = live_glyph_arrays (heap r)"
  "drawn_texts (cr_emit c r) = drawn_texts r @ map g_text (glyph_paths [c])"
  "font_in_sync (cr_emit c r) = font_in_sync r"
  by (auto simp: cr_emit_def outside_drawing_def drawn_texts_def font_in_sync_def)

lemma set_color_props:
  "outside_drawing (set_color c r) = outside_drawing r"
  "live_glyph_arrays (heap (set_color c r)) = live_glyph_arrays (heap r)"
  "drawn_texts (set_color c r) = drawn_texts r"
  "font_in_sync (set_color c r) = font_in_sync r"
  by (auto simp: set_color_def cr_emit_def outside_drawing_def drawn_texts_def font_in_sync_def)

lemma heap_unchanged [simp]:
  "heap (set_font f r) = heap r"
  "heap (set_color c r) = heap r"
  "heap (cr_emit op r) = heap r"
  by (simp_all add: set_font_def set_color_def cr_emit_def)

lemma outside_drawing_heap:
  "live_surfaces h = live_surfaces (heap r) \<Longrightarrow> live_contexts h = live_contexts (heap r) \<Longrightarrow>
   live_buffers h = live_buffers (heap r) \<Longrightarrow>
   outside_drawing (r\<lparr>heap := h\<rparr>) = outside_drawing r"
  by (simp add: outside_drawing_def)

lemma glyph_alloc_props:
  "outside_drawing (r\<lparr>heap := (heap r)\<lparr>live_glyph_arrays := n\<rparr>\<rparr>) = outside_drawing r"
  "drawn_texts (r\<lparr>heap := h\<rparr>) = drawn_texts r"
  "font_in_sync (r\<lparr>heap := h\<rparr>) = font_in_sync r"
  "cr_font (m_cr (r\<lparr>heap := h\<rparr>)) = cr_font (m_cr r)"
  "geom (r\<lparr>heap := h\<rparr>) = geom r"
  by (simp_all add: outside_drawing_def drawn_texts_def font_in_sync_def)

lemma shape_runs_result:
  assumes "font_in_sync r"
  shows "case shape_runs be y ts x bw r of
           Inl r' \<Rightarrow> outside_drawing r' = outside_drawing r \<and> drawn_texts r' = drawn_texts r \<and>
                     \<not> shapes_all be ts
         | Inr (ts', x', bw', r') \<Rightarrow>
             outside_drawing r' = outside_drawing r \<and> drawn_texts r' = drawn_texts r \<and>
             font_in_sync r' \<and>
             live_glyph_arrays (heap r') = live_glyph_arrays (heap r) + int (length ts) \<and>
             list_all shaped ts' \<and> map text_c_str ts' = map text_c_str ts \<and>
             map font ts' = map font ts \<and> map color ts' = map color ts \<and> shapes_all be ts"
  using assms
proof (induction ts arbitrary: x bw r)
  case Nil
  then show ?case by (simp add: shapes_all_def)
next
  case (Cons t ts)
  let ?r1 = "set_font (font t) r"
  have s1: "font_in_sync ?r1" "cr_font (m_cr ?r1) = Some (font t)"
    using Cons.prems by (simp_all add: set_font_props)
  show ?case
  proof (cases "shaping_ok be (Some (font t)) (text_c_str t)")
    case False
    then show ?thesis
      by (simp add: Let_def cairo_scaled_font_text_to_glyphs_def s1 set_font_props shapes_all_def
          text_c_str_def[symmetric])
  next
    case True
    let ?gl = "\<lparr>g_font = Some (font t), g_text = text_c_str t,
       g_x = of_int (x + m_padding (geom ?r1)), g_y = of_int (y - m_padding (geom ?r1) sdiv 4)\<rparr>"
    let ?r2 = "?r1\<lparr>heap := (heap ?r1)\<lparr>live_glyph_arrays := live_glyph_arrays (heap ?r1) + 1\<rparr>\<rparr>"
    let ?adv = "x_advance be (cr_font (m_cr ?r2)) ?gl"
    have s2: "font_in_sync ?r2" using s1 by (simp add: glyph_alloc_props)
    have o2: "outside_drawing ?r2 = outside_drawing r" "drawn_texts ?r2 = drawn_texts r"
      "live_glyph_arrays (heap ?r2) = live_glyph_arrays (heap r) + 1"
      by (simp_all add: glyph_alloc_props outside_drawing_heap set_font_props)
    let ?res = "shape_runs be y ts (c_trunc (of_int x + ?adv)) (c_trunc (of_int bw + ?adv)) ?r2"
    have sh: "shaped (t\<lparr>glyphs := Some ?gl\<rparr>)" by (simp add: shaped_def)
    note IH = Cons.IH[OF s2, of "c_trunc (of_int x + ?adv)" "c_trunc (of_int bw + ?adv)"]
    show ?thesis
    proof (cases ?res)
      case (Inl r')
      then have e: "shape_runs be y (t # ts) x bw r = Inl r'"
        using True
        by (simp add: Let_def cairo_scaled_font_text_to_glyphs_def s1 text_c_str_def[symmetric])
      show ?thesis unfolding e using IH[unfolded Inl, simplified] o2
        by (simp add: shapes_all_def)
    next
      case (Inr q)
      obtain ts' x' bw' r' where q: "q = (ts', x', bw', r')" by (cases q) auto
      from Inr q have e: "shape_runs be y (t # ts) x bw r =
          Inr (t\<lparr>glyphs := Some ?gl\<rparr> # ts', x', bw', r')"
        using True
        by (simp add: Let_def cairo_scaled_font_text_to_glyphs_def s1 text_c_str_def[symmetric])
      show ?thesis unfolding e using IH[unfolded Inr, unfolded q, simplified] o2 sh True
        by (simp add: shapes_all_def)
    qed
  qed
qed

lemma shift_glyphs_props:
  "shaped t \<Longrightarrow> shaped (shift_glyphs d t)"
  "text_c_str (shift_glyphs d t) = text_c_str t"
  "font (shift_glyphs d t) = font t"
  "color (shift_glyphs d t) = color t"
  by (auto simp: shaped_def shift_glyphs_def text_c_str_def split: option.splits)

lemma draw_runs_result:
  "list_all shaped ts \<Longrightarrow> font_in_sync r \<Longrightarrow>
     outside_drawing (draw_runs ts r) = outside_drawing r \<and>
     drawn_texts (draw_runs ts r) = drawn_texts r @ map text_c_str ts \<and>
     font_in_sync (draw_runs ts r) \<and>
     live_glyph_arrays (heap (draw_runs ts r)) = live_glyph_arrays (heap r) - int (length ts)"
proof (induction ts arbitrary: r)
  case Nil
  then show ?case by simp
next
  case (Cons t ts)
  from Cons.prems(1) have st: "shaped t" and rest: "list_all shaped ts" by simp_all
  from st obtain g where g: "glyphs t = Some g" "g_text g = text_c_str t"
    by (auto simp: shaped_def split: option.splits)
  let ?r1 = "set_color (color t) (set_font (font t) r)"
  define r2 where "r2 = (cr_emit (GlyphPath g) ?r1)\<lparr>heap := (heap ?r1)\<lparr>live_glyph_arrays := live_glyph_arrays (heap ?r1) - 1\<rparr>\<rparr>"
  have p: "outside_drawing r2 = outside_drawing r" "drawn_texts r2 = drawn_texts r @ [text_c_str t]"
    "font_in_sync r2" "live_glyph_arrays (heap r2) = live_glyph_arrays (heap r) - 1"
    unfolding r2_def using Cons.prems(2) g(2)
    by (simp_all add: glyph_alloc_props outside_drawing_heap set_font_props set_color_props
        cr_emit_props)
  have step: "draw_runs (t # ts) r = draw_runs ts r2"
    by (simp add: Let_def g r2_def)
  from Cons.IH[OF rest p(3)] p show ?case unfolding step by simp
qed
lemma render_line_result:
  assumes "font_in_sync r"
  shows "case render_line be line y r of
           Inl r' \<Rightarrow> outside_drawing r' = outside_drawing r \<and> drawn_texts r' = drawn_texts r \<and>
                     \<not> shapes_all be line
         | Inr r' \<Rightarrow>
             outside_drawing r' = outside_drawing r \<and>
             drawn_texts r' = drawn_texts r @ map text_c_str line \<and>
             font_in_sync r' \<and>
             live_glyph_arrays (heap r') = live_glyph_arrays (heap r) \<and> shapes_all be line"
proof (cases "shape_runs be y line (left_aligned_margin (geom r)) (m_padding (geom r) * 2) r")
  case (Inl r')
  then have e: "render_line be line y r = Inl r'" by (simp add: render_line_def)
  show ?thesis unfolding e using shape_runs_result[OF assms, where be=be and y=y and ts=line
      and x="left_aligned_margin (geom r)" and bw="m_padding (geom r) * 2", unfolded Inl, simplified]
    by simp
next
  case (Inr q)
  obtain line1 x1 bw r1 where q: "q = (line1, x1, bw, r1)" by (cases q) auto
  note s = shape_runs_result[OF assms, where be=be and y=y and ts=line
      and x="left_aligned_margin (geom r)" and bw="m_padding (geom r) * 2", unfolded Inr, unfolded q, simplified]
  let ?cx = "if m_centered (geom r1) then m_image_width (geom r1) sdiv 2 - bw sdiv 2 else left_aligned_margin (geom r1)"
  let ?line2 = "if m_centered (geom r1) then map (shift_glyphs ?cx) line1 else line1"
  let ?r2 = "if m_ghost_box (geom r1)
             then cr_emit Fill (cr_emit (Rectangle ?cx (y - m_font_size (geom r1)) bw (m_font_size (geom r1) + m_padding (geom r1))) (set_color (- 2) r1))
             else r1"
  let ?r3 = "draw_runs ?line2 ?r2"
  have l2: "list_all shaped ?line2" "map text_c_str ?line2 = map text_c_str line"
    using s by (simp_all add: list_all_iff shift_glyphs_props comp_def)
  have r2: "outside_drawing ?r2 = outside_drawing r" "drawn_texts ?r2 = drawn_texts r"
    "font_in_sync ?r2" "live_glyph_arrays (heap ?r2) = live_glyph_arrays (heap r) + int (length line)"
    using s by (simp_all add: cr_emit_props set_color_props)
  note d = draw_runs_result[OF l2(1) r2(3)]
  have len: "length ?line2 = length line" using arg_cong[OF l2(2), of length] by simp
  have e: "render_line be line y r = Inr (cr_emit Stroke (cr_emit (SetLineWidth 2) (set_color 0 (cr_emit FillPreserve ?r3))))"
    using Inr q by (simp add: render_line_def Let_def)
  show ?thesis unfolding e using d r2 l2(2) s len
    by (simp add: cr_emit_props set_color_props)
qed
lemma lines_loop_result:
  assumes "font_in_sync r" and "i \<le> length pl"
  shows "case lines_loop be pl i y r of
           Inl r' \<Rightarrow>
             outside_drawing r' = outside_drawing r \<and>
             (\<exists>j<i. drawn_texts r' =
                      drawn_texts r @ map text_c_str (concat (rev (drop (Suc j) (take i pl)))) \<and>
                    \<not> shapes_all be (pl ! j))
         | Inr r' \<Rightarrow>
             outside_drawing r' = outside_drawing r \<and>
             drawn_texts r' = drawn_texts r @ map text_c_str (concat (rev (take i pl))) \<and>
             live_glyph_arrays (heap r') = live_glyph_arrays (heap r) \<and>
             list_all (shapes_all be) (take i pl)"
  using assms
proof (induction i arbitrary: y r)
  case 0
  then show ?case by simp
next
  case (Suc i)
  from Suc.prems(2) have i: "i < length pl" "i \<le> length pl" by simp_all
  have tk: "take (Suc i) pl = take i pl @ [pl ! i]"
    using i(1) by (rule take_Suc_conv_app_nth)
  show ?case
  proof (cases "render_line be (pl ! i) y r")
    case (Inl r')
    then have e: "lines_loop be pl (Suc i) y r = Inl r'" by simp
    note rl = render_line_result[OF Suc.prems(1), where be=be and line="pl ! i" and y=y, unfolded Inl, simplified]
    have "drawn_texts r' = drawn_texts r @ map text_c_str (concat (rev (drop (Suc i) (take (Suc i) pl)))) \<and>
          \<not> shapes_all be (pl ! i)"
      using rl by simp
    then show ?thesis unfolding e using rl by auto
  next
    case (Inr r1)
    note rl = render_line_result[OF Suc.prems(1), where be=be and line="pl ! i" and y=y, unfolded Inr, simplified]
    let ?y' = "y - (m_font_size (geom r1) + m_padding (geom r1))"
    from rl have s1: "font_in_sync r1" by simp
    note IH = Suc.IH[OF s1 i(2), of ?y']
    have e: "lines_loop be pl (Suc i) y r = lines_loop be pl i ?y' r1" using Inr by simp
    show ?thesis
    proof (cases "lines_loop be pl i ?y' r1")
      case (Inl r')
      from IH[unfolded Inl, simplified] obtain j where j: "j < i"
        "drawn_texts r' = drawn_texts r1 @ map text_c_str (concat (rev (drop (Suc j) (take i pl))))"
        "\<not> shapes_all be (pl ! j)" and o: "outside_drawing r' = outside_drawing r1"
        by blast
      have dr: "drop (Suc j) (take (Suc i) pl) = drop (Suc j) (take i pl) @ [pl ! i]"
        unfolding tk using j(1) i by simp
      have dt: "drawn_texts r' =
          drawn_texts r @ map text_c_str (concat (rev (drop (Suc j) (take (Suc i) pl))))"
        unfolding dr j(2) using rl by simp
      have "\<exists>j<Suc i. drawn_texts r' =
                drawn_texts r @ map text_c_str (concat (rev (drop (Suc j) (take (Suc i) pl)))) \<and>
              \<not> shapes_all be (pl ! j)"
        using dt j(1,3) by (intro exI[of _ j]) simp
      moreover have "outside_drawing r' = outside_drawing r" using o rl by simp
      ultimately show ?thesis unfolding e Inl by simp
    next
      case (Inr r')
      from IH[unfolded Inr, simplified] rl show ?thesis unfolding e Inr tk by simp
    qed
  qed
qed
lemma make_subtitle_image_text_result:
  fixes be pl r
  defines "r' \<equiv> make_subtitle_image_text be pl r"
    and "k \<equiv> no_of_lines pl r"
  shows "geom r' = geom r \<and> m_prepared_from_image r' = m_prepared_from_image r \<and>
         other_image_data r' = other_image_data r \<and>
         subtitleLayer r' = subtitleLayer r \<and> dvdSubLayer r' = dvdSubLayer r \<and>
         live_surfaces (heap r') = live_surfaces (heap r) + 1 \<and>
         live_contexts (heap r') = live_contexts (heap r) + 1 \<and>
         live_buffers (heap r') = live_buffers (heap r) \<and>
         (if list_all (shapes_all be) (take k pl)
          then m_prepared_from_text r' \<and> cairo_image_data r' = cr_ops (m_cr r') \<and>
               drawn_texts r' = map text_c_str (concat (rev (take k pl))) \<and>
               live_glyph_arrays (heap r') = live_glyph_arrays (heap r)
          else m_prepared_from_text r' = m_prepared_from_text r \<and>
               cairo_image_data r' = cairo_image_data r \<and>
               (\<exists>j<k. drawn_texts r' = map text_c_str (concat (rev (drop (Suc j) (take k pl)))) \<and>
                      \<not> shapes_all be (pl ! j)))"
proof -
  let ?r0 = "r\<lparr>m_cr := \<lparr>cr_width = m_image_width (geom r), cr_height = m_image_height (geom r),
                            cr_font = None, cr_ops = []\<rparr>,
                   heap := (heap r)\<lparr>live_surfaces := live_surfaces (heap r) + 1,
                                    live_contexts := live_contexts (heap r) + 1\<rparr>,
                   m_current_font := None,
                   m_color := - 500\<rparr>"
  let ?y = "m_image_height (geom r) - m_padding (geom r)"
  have k: "k = nat (if int (length pl) > m_max_lines (geom r) then m_max_lines (geom r) else int (length pl))"
    "k \<le> length pl"
    unfolding k_def no_of_lines_def by (auto simp: min_def)
  have s0: "font_in_sync ?r0" by (simp add: font_in_sync_def)
  have d0: "drawn_texts ?r0 = []" by (simp add: drawn_texts_def)
  have g0: "live_glyph_arrays (heap ?r0) = live_glyph_arrays (heap r)" by simp
  have o0: "outside_drawing ?r0 =
     (geom r, m_prepared_from_image r, m_prepared_from_text r, other_image_data r,
      cairo_image_data r, subtitleLayer r, dvdSubLayer r,
      live_surfaces (heap r) + 1, live_contexts (heap r) + 1, live_buffers (heap r))"
    by (simp add: outside_drawing_def)
  note ll = lines_loop_result[OF s0 k(2), where be=be and y="?y"]
  show ?thesis
  proof (cases "lines_loop be pl k ?y ?r0")
    case (Inl r1)
    have e: "r' = r1" unfolding r'_def make_subtitle_image_text_def Let_def k(1)[symmetric] Inl by simp
    from ll[unfolded Inl, simplified] obtain j where
      o: "outside_drawing r1 = outside_drawing ?r0"
      and j: "j < k" "drawn_texts r1 = map text_c_str (concat (rev (drop (Suc j) (take k pl))))"
        "\<not> shapes_all be (pl ! j)"
      unfolding d0 by auto
    have "pl ! j \<in> set (take k pl)" using j(1) k(2)
      by (metis in_set_conv_nth length_take min.absorb2 nth_take)
    with j(3) have n: "\<not> list_all (shapes_all be) (take k pl)" by (auto simp: list_all_iff)
    from o[unfolded o0] j n show ?thesis unfolding e
      by (auto simp: outside_drawing_def)
  next
    case (Inr r1)
    have e: "r' = r1\<lparr>cairo_image_data := cr_ops (m_cr r1), m_prepared_from_text := True\<rparr>"
      unfolding r'_def make_subtitle_image_text_def Let_def k(1)[symmetric] Inr by simp
    from ll[unfolded Inr, simplified] have
      o: "outside_drawing r1 = outside_drawing ?r0"
      and d: "drawn_texts r1 = map text_c_str (concat (rev (take k pl)))"
      and g: "live_glyph_arrays (heap r1) = live_glyph_arrays (heap r)"
      and a: "list_all (shapes_all be) (take k pl)"
      unfolding d0 by auto
    from o[unfolded o0] d g a show ?thesis unfolding e
      by (auto simp: outside_drawing_def drawn_texts_def)
  qed
qed

subsection \<open>Which lines are drawn\<close>

lemmas layout_eval = make_subtitle_image_text_def render_line_def
  cairo_scaled_font_text_to_glyphs_def set_font_def set_color_def cr_emit_def c_trunc_def
  shift_glyphs_def Let_def signed_divide_int_def mk_SubtitleText_def text_c_str_def c_str_def

lemma unprepare_geom [simp]: "geom (unprepare r) = geom r"
  by (simp add: unprepare_def Let_def)

lemma no_of_lines_unprepare [simp]: "no_of_lines pl (unprepare r) = no_of_lines pl r"
  by (simp add: no_of_lines_def)

lemma unprepare_flags [simp]:
  "\<not> m_prepared_from_image (unprepare r)" "\<not> m_prepared_from_text (unprepare r)"
  by (simp_all add: unprepare_def Let_def)

lemma geometry_two_lines:
  "SubtitleRenderer_geometry fpu_1080 1920 1080 True False 2 =
     \<lparr>m_centered = True, m_ghost_box = False, m_max_lines = 2, m_font_size = 59,
      m_padding = 14, m_image_width = 1808, m_image_height = 160,
      left_margin = 56, top_margin = 884, left_aligned_margin = 254,
      m_scaled_image_width = 643, m_scaled_image_height = 80, m_scaled_padding = 7\<rparr>"
  by (simp add: SubtitleRenderer_geometry_def fpu_1080_def Let_def wrap32_def
      signed_divide_int_def)

lemma single_line_parsed:
  "formatted_lines [''x''] = Some [[mk_SubtitleText ''x'' NORMAL_FONT (- 1)]]"
  by (simp add: parse_eval)

lemma four_lines_parsed:
  "formatted_lines [''a'', ''b'', ''c'', ''d''] =
     Some [[mk_SubtitleText ''a'' NORMAL_FONT (- 1)], [mk_SubtitleText ''b'' NORMAL_FONT (- 1)],
           [mk_SubtitleText ''c'' NORMAL_FONT (- 1)], [mk_SubtitleText ''d'' NORMAL_FONT (- 1)]]"
  by (simp add: parse_eval)

lemma invalid_line_parsed:
  "formatted_lines [[CHR 0xFF], ''c''] =
     Some [[mk_SubtitleText [CHR 0xFF] NORMAL_FONT (- 1)], [mk_SubtitleText ''c'' NORMAL_FONT (- 1)]]"
  by (simp add: parse_eval)

text \<open>
  C4 as stated fails: with two input lines and \<^verbatim>\<open>max_lines\<close> 3, when the backend
  cannot shape the text of line 0 (it is not valid UTF-8), line 1 is drawn, line 0 is
  not, and no frame is prepared: not all of the lines 0 to \<open>min(n, m) - 1\<close> are
  rendered.
\<close>

theorem line_truncation_counterexample:
  "formatted_lines [[CHR 0xFF], ''c''] =
     Some [[mk_SubtitleText [CHR 0xFF] NORMAL_FONT (- 1)], [mk_SubtitleText ''c'' NORMAL_FONT (- 1)]] \<and>
   m_max_lines (geom renderer_1080) = 3 \<and>
   map_option (\<lambda>r. (drawn_texts r, m_prepared_from_text r))
     (prepare_lines backend_utf8 [[CHR 0xFF], ''c''] renderer_1080) = Some ([''c''], False)"
  by (simp add: invalid_line_parsed prepare_lines_def parse_lines_def unprepare_def layout_eval
      backend_utf8_def renderer_1080_def new_renderer_def geometry_1080 drawn_texts_def
      numeral_2_eq_2 empty_heap_def glyph_paths_def List.map_filter_def)

text \<open>
  C4, amended. For every input of \<open>n\<close> text lines (each shorter than \<open>2 ^ 31\<close>
  bytes) and every \<^verbatim>\<open>max_lines\<close> \<open>m\<close>: parsing gives \<open>n\<close> lines of runs,
  and \<^verbatim>\<open>prepare\<close> returns. With \<open>k = min(n, m)\<close> (0 when that is negative), the
  runs drawn are, in every case, those of the lines \<open>j\<close> to \<open>k - 1\<close> for some
  \<open>j\<close>, bottom line first: no run of a line with index \<open>k\<close> or more is ever
  drawn. The frame is prepared exactly when the backend shapes every run of the first
  \<open>k\<close> lines, and then the frame holds exactly the runs of the lines 0 to
  \<open>k - 1\<close>, each once. A run is shaped and drawn as the C string of its text
  (\<^verbatim>\<open>text.c_str()\<close>): its bytes before the first NUL.
\<close>

theorem line_truncation:
  assumes "list_all (\<lambda>l. length l < 2 ^ 31) lines"
  shows "\<exists>pl r'. formatted_lines lines = Some pl \<and> length pl = length lines \<and>
           prepare_lines be lines r = Some r' \<and>
           (\<exists>j\<le>no_of_lines pl r.
              drawn_texts r' = map text_c_str (concat (rev (drop j (take (no_of_lines pl r) pl))))) \<and>
           m_prepared_from_text r' = list_all (shapes_all be) (take (no_of_lines pl r) pl) \<and>
           (list_all (shapes_all be) (take (no_of_lines pl r) pl) \<longrightarrow>
              cairo_image_data r' = cr_ops (m_cr r') \<and>
              drawn_texts r' = map text_c_str (concat (rev (take (no_of_lines pl r) pl))))"
proof -
  from assms have "\<forall>l\<in>set lines. length l < 2 ^ 31" by (simp add: list_all_iff)
  from formatted_lines_total[OF this] obtain pl where
    pl: "formatted_lines lines = Some pl" "length pl = length lines" by blast
  let ?k = "no_of_lines pl r"
  let ?r' = "make_subtitle_image_text be pl (unprepare r)"
  have p: "prepare_lines be lines r = Some ?r'"
    by (simp add: prepare_lines_def parse_lines_def pl)
  note t = make_subtitle_image_text_result[of be pl "unprepare r", simplified]
  have j: "\<exists>j\<le>?k. drawn_texts ?r' = map text_c_str (concat (rev (drop j (take ?k pl))))"
  proof (cases "list_all (shapes_all be) (take ?k pl)")
    case True
    with t have "drawn_texts ?r' = map text_c_str (concat (rev (drop 0 (take ?k pl))))" by simp
    then show ?thesis by blast
  next
    case False
    with t obtain j where "j < ?k"
      "drawn_texts ?r' = map text_c_str (concat (rev (drop (Suc j) (take ?k pl))))" by auto
    then show ?thesis by (intro exI[of _ "Suc j"]) simp
  qed
  have f: "m_prepared_from_text ?r' = list_all (shapes_all be) (take ?k pl)"
    using t by (cases "list_all (shapes_all be) (take ?k pl)") simp_all
  have s: "list_all (shapes_all be) (take ?k pl) \<longrightarrow>
              cairo_image_data ?r' = cr_ops (m_cr ?r') \<and>
              drawn_texts ?r' = map text_c_str (concat (rev (take ?k pl)))"
    using t by simp
  from pl p j f s show ?thesis by blast
qed

lemma nul_line_parsed:
  "formatted_lines [[CHR ''a'', CHR 0x00, CHR ''b'']] =
     Some [[mk_SubtitleText [CHR ''a'', CHR 0x00, CHR ''b''] NORMAL_FONT (- 1)]]"
  by (simp add: parse_eval)

lemma run_drawn_up_to_nul:
  "map_option (\<lambda>r. (drawn_texts r, m_prepared_from_text r))
     (prepare_lines backend_100 [[CHR ''a'', CHR 0x00, CHR ''b'']] renderer_1080) =
     Some ([''a''], True)"
  by (simp add: nul_line_parsed prepare_lines_def parse_lines_def unprepare_def layout_eval
      backend_100_def renderer_1080_def new_renderer_def geometry_1080 drawn_texts_def
      numeral_2_eq_2 numeral_3_eq_3 empty_heap_def glyph_paths_def List.map_filter_def)

theorem line_truncation_witness:
  "list_all (\<lambda>l. length l < 2 ^ 31) [''a'', ''b'', ''c'', ''d''] \<and>
   m_max_lines (geom renderer_two_lines) = 2 \<and>
   (\<exists>r'. prepare_lines backend_100 [''a'', ''b'', ''c'', ''d''] renderer_two_lines = Some r' \<and>
         m_prepared_from_text r' \<and> drawn_texts r' = [''b'', ''a''])"
proof -
  have a: "list_all (\<lambda>l. length l < 2 ^ 31) [''a'', ''b'', ''c'', ''d'']" by simp
  have m: "m_max_lines (geom renderer_two_lines) = 2"
    by (simp add: renderer_two_lines_def new_renderer_def geometry_two_lines)
  from line_truncation[OF a, of backend_100 renderer_two_lines] obtain pl r' where
    r: "formatted_lines [''a'', ''b'', ''c'', ''d''] = Some pl"
      "prepare_lines backend_100 [''a'', ''b'', ''c'', ''d''] renderer_two_lines = Some r'"
      "m_prepared_from_text r' = list_all (shapes_all backend_100) (take (no_of_lines pl renderer_two_lines) pl)"
      "list_all (shapes_all backend_100) (take (no_of_lines pl renderer_two_lines) pl) \<longrightarrow>
         drawn_texts r' = map text_c_str (concat (rev (take (no_of_lines pl renderer_two_lines) pl)))"
    by blast
  from r(1) have pl: "pl = [[mk_SubtitleText ''a'' NORMAL_FONT (- 1)], [mk_SubtitleText ''b'' NORMAL_FONT (- 1)],
           [mk_SubtitleText ''c'' NORMAL_FONT (- 1)], [mk_SubtitleText ''d'' NORMAL_FONT (- 1)]]"
    by (simp add: four_lines_parsed)
  have k: "no_of_lines pl renderer_two_lines = 2"
    by (simp add: no_of_lines_def m pl)
  have ok: "list_all (shapes_all backend_100) (take 2 pl)"
    by (simp add: pl shapes_all_def backend_100_def)
  from r(3,4) ok have "m_prepared_from_text r'" "drawn_texts r' = [''b'', ''a'']"
    unfolding k by (simp_all add: pl mk_SubtitleText_def text_c_str_def c_str_def)
  with a m r(2) show ?thesis by blast
qed

subsection \<open>Centred layout\<close>

lemma glyph_paths_props:
  "glyph_paths (cr_ops (m_cr (set_font f r))) = glyph_paths (cr_ops (m_cr r))"
  "glyph_paths (cr_ops (m_cr (set_color c r))) = glyph_paths (cr_ops (m_cr r))"
  "glyph_paths (cr_ops (m_cr (cr_emit a r))) = glyph_paths (cr_ops (m_cr r)) @ glyph_paths [a]"
  "glyph_paths (cr_ops (m_cr (r\<lparr>heap := h\<rparr>))) = glyph_paths (cr_ops (m_cr r))"
  by (auto simp: set_font_def set_color_def cr_emit_def)

lemma geom_props:
  "geom (set_font f r) = geom r"
  "geom (set_color c r) = geom r"
  "geom (cr_emit a r) = geom r"
  by (auto simp: set_font_def set_color_def cr_emit_def)

text \<open>
  Where centred layout puts a line of one run: at
  \<^verbatim>\<open>left_aligned_margin + m_padding\<close> plus the centring shift
  \<^verbatim>\<open>m_image_width / 2 - box_width / 2\<close>, for every geometry, run and advance.
\<close>

lemma centred_single_run:
  fixes y :: int
  assumes c: "m_centered (geom r)" and ok: "shaping_ok be (Some (font t)) (text_c_str t)"
    and s: "font_in_sync r"
    and g0: "g0 = \<lparr>g_font = Some (font t), g_text = text_c_str t,
                   g_x = of_int (left_aligned_margin (geom r) + m_padding (geom r)),
                   g_y = of_int (y - m_padding (geom r) sdiv 4)\<rparr>"
    and bw: "box_width = c_trunc (of_int (m_padding (geom r) * 2) + x_advance be (Some (font t)) g0)"
  shows "\<exists>r'. render_line be [t] y r = Inr r' \<and>
           glyph_paths (cr_ops (m_cr r')) =
             glyph_paths (cr_ops (m_cr r)) @
             [g0\<lparr>g_x := g_x g0 + of_int (m_image_width (geom r) sdiv 2 - box_width sdiv 2)\<rparr>]"
proof -
  let ?r1 = "set_font (font t) r"
  let ?r2 = "?r1\<lparr>heap := (heap ?r1)\<lparr>live_glyph_arrays := live_glyph_arrays (heap ?r1) + 1\<rparr>\<rparr>"
  let ?x1 = "c_trunc (of_int (left_aligned_margin (geom r)) + x_advance be (Some (font t)) g0)"
  have f1: "cr_font (m_cr ?r1) = Some (font t)"
    using s by (simp add: set_font_props)
  have sh: "shape_runs be y [t] (left_aligned_margin (geom r)) (m_padding (geom r) * 2) r =
              Inr ([t\<lparr>glyphs := Some g0\<rparr>], ?x1, box_width, ?r2)"
    using ok
    by (simp add: Let_def cairo_scaled_font_text_to_glyphs_def f1 g0 bw geom_props text_c_str_def)
  let ?cx = "m_image_width (geom r) sdiv 2 - box_width sdiv 2"
  let ?g1 = "g0\<lparr>g_x := g_x g0 + of_int ?cx\<rparr>"
  have l2: "shift_glyphs d (t\<lparr>glyphs := Some g0\<rparr>) =
            t\<lparr>glyphs := Some (g0\<lparr>g_x := g_x g0 + of_int d\<rparr>)\<rparr>" for d
    by (simp add: shift_glyphs_def)
  have dr: "glyph_paths (cr_ops (m_cr (draw_runs [t\<lparr>glyphs := Some g\<rparr>] q))) =
            glyph_paths (cr_ops (m_cr q)) @ [g]" for q g
    by (simp add: Let_def glyph_paths_props)
  show ?thesis
    unfolding render_line_def sh
    using c by (simp add: Let_def l2 dr glyph_paths_props geom_props del: draw_runs.simps)
qed


text \<open>
  C7 (evaluation at the failing input). On the 1920 by 1080 screen
  \<^verbatim>\<open>left_aligned_margin\<close> is 254 and the canvas is 1808 wide. With centred layout and
  one run of advance 100, \<^verbatim>\<open>box_width\<close> is 128 and the ghost box is drawn from 840
  to 968, centred at 904. The run was shaped at \<^verbatim>\<open>left_aligned_margin + m_padding\<close>
  and then moved by \<open>840\<close>: it starts at 1108, right of its own box, 1108 pixels
  from the left edge of the canvas and 600 from the right edge. With
  \<^verbatim>\<open>left_aligned_margin\<close> set to 0 the same call puts the run at 854, with 854
  pixels on either side.
\<close>

theorem centred_run_is_displaced:
  "m_centered (geom renderer_1080) \<and> left_aligned_margin (geom renderer_1080) = 254 \<and>
   m_image_width (geom renderer_1080) = 1808 \<and>
   map_option (\<lambda>r. cr_ops (m_cr r)) (prepare_lines backend_100 [''x''] renderer_1080) =
     Some [SetScaledFont NORMAL_FONT, SetSource (- 2), Rectangle 840 151 128 73, Fill,
           SetSource (- 1),
           GlyphPath \<lparr>g_font = Some NORMAL_FONT, g_text = ''x'', g_x = 1108, g_y = 207\<rparr>,
           FillPreserve, SetSource 0, SetLineWidth 2, Stroke] \<and>
   map_option (\<lambda>r. map (\<lambda>g. (run_left_gap g, run_right_gap backend_100 r g))
                        (glyph_paths (cr_ops (m_cr r))))
     (prepare_lines backend_100 [''x''] renderer_1080) = Some [(1108, 600)] \<and>
   map_option (\<lambda>r. map (\<lambda>g. (run_left_gap g, run_right_gap backend_100 r g))
                        (glyph_paths (cr_ops (m_cr r))))
     (prepare_lines backend_100 [''x'']
        (renderer_1080\<lparr>geom := (geom renderer_1080)\<lparr>left_aligned_margin := 0\<rparr>\<rparr>)) =
     Some [(854, 854)]"
  by (simp add: single_line_parsed prepare_lines_def parse_lines_def unprepare_def layout_eval
      backend_100_def renderer_1080_def new_renderer_def geometry_1080 glyph_paths_def
      List.map_filter_def run_left_gap_def run_right_gap_def)

subsection \<open>At most one frame is prepared\<close>

lemma unprepare_heap:
  "heap (unprepare r) =
     (heap r)\<lparr>live_buffers := live_buffers (heap r) - (if m_prepared_from_image r then 1 else 0),
              live_contexts := live_contexts (heap r) - (if m_prepared_from_text r then 1 else 0),
              live_surfaces := live_surfaces (heap r) - (if m_prepared_from_text r then 1 else 0)\<rparr>"
  by (simp add: unprepare_def Let_def)

lemma unprepare_live_total:
  "live_total (heap (unprepare r)) =
     live_total (heap r) - (if m_prepared_from_image r then 1 else 0)
                         - (if m_prepared_from_text r then 2 else 0)"
  by (simp add: unprepare_heap live_total_def)

lemma bitmap_flags:
  assumes "make_subtitle_image_bitmap w h px r = Some r'"
  shows "m_prepared_from_text r' = m_prepared_from_text r \<and>
         (m_prepared_from_image r \<longrightarrow> m_prepared_from_image r')"
  using assms
  by (auto simp: make_subtitle_image_bitmap_def Let_def split: if_splits option.splits)

lemma bitmap_accepted_heap:
  assumes "make_subtitle_image_bitmap w h px r = Some r'"
    and "\<not> m_prepared_from_image r" and "m_prepared_from_image r'"
  shows "heap r' = (heap r)\<lparr>live_buffers := live_buffers (heap r) + 1\<rparr>"
  using assms
  by (auto simp: make_subtitle_image_bitmap_def Let_def split: if_splits option.splits)

lemma parse_lines_flags:
  assumes "parse_lines be lines r = Some r'"
  shows "m_prepared_from_image r' = m_prepared_from_image r"
proof -
  from assms obtain pl where "r' = make_subtitle_image_text be pl r"
    by (auto simp: parse_lines_def)
  with make_subtitle_image_text_result[of be pl r] show ?thesis by simp
qed

lemma parse_lines_prepared_heap:
  assumes "parse_lines be lines r = Some r'" and "\<not> m_prepared_from_text r"
    and "m_prepared_from_text r'"
  shows "heap r' = (heap r)\<lparr>live_surfaces := live_surfaces (heap r) + 1,
                             live_contexts := live_contexts (heap r) + 1\<rparr>"
proof -
  from assms obtain pl where r': "r' = make_subtitle_image_text be pl r"
    by (auto simp: parse_lines_def)
  note t = make_subtitle_image_text_result[of be pl r, folded r']
  from t assms(2,3) have ok: "list_all (shapes_all be) (take (no_of_lines pl r) pl)"
    by (auto split: if_splits)
  with t have "live_surfaces (heap r') = live_surfaces (heap r) + 1"
    "live_contexts (heap r') = live_contexts (heap r) + 1"
    "live_buffers (heap r') = live_buffers (heap r)"
    "live_glyph_arrays (heap r') = live_glyph_arrays (heap r)" by simp_all
  then show ?thesis by simp
qed

lemma show_next_flags:
  "\<not> (m_prepared_from_image (show_next r) \<and> m_prepared_from_text (show_next r)) \<or>
   show_next r = r"
  by (auto simp: show_next_def)

lemma reachable_exclusive:
  "reachable be g r \<Longrightarrow> \<not> (m_prepared_from_image r \<and> m_prepared_from_text r)"
proof (induction rule: reachable.induct)
  case reachable_new
  then show ?case by (simp add: new_renderer_def)
next
  case (reachable_prepare r sub r')
  show ?case
  proof (cases "isImage sub")
    case True
    with reachable_prepare.hyps(2) have
      "make_subtitle_image_bitmap (width sub) (height sub) (image_data sub) (unprepare r) = Some r'"
      by (simp add: prepare_def Let_def)
    from bitmap_flags[OF this] show ?thesis by simp
  next
    case False
    with reachable_prepare.hyps(2) have "parse_lines be (text_lines sub) (unprepare r) = Some r'"
      by (simp add: prepare_def Let_def)
    from parse_lines_flags[OF this] show ?thesis by simp
  qed
next
  case (reachable_prepare_lines r lines r')
  then have "parse_lines be lines (unprepare r) = Some r'" by (simp add: prepare_lines_def)
  from parse_lines_flags[OF this] show ?case by simp
next
  case (reachable_unprepare r)
  then show ?case by simp
next
  case (reachable_show_next r)
  then show ?case by (auto simp: show_next_def)
next
  case (reachable_hide r)
  then show ?case by (simp add: hide_def)
qed

lemma text_then_bitmap:
  assumes r1: "prepare_lines be lines r = Some r1" and t1: "m_prepared_from_text r1"
    and sub: "isImage sub" and r2: "prepare be sub r1 = Some r2" and i2: "m_prepared_from_image r2"
  shows "\<not> m_prepared_from_text r2 \<and>
         heap r1 = (heap (unprepare r))\<lparr>live_surfaces := live_surfaces (heap (unprepare r)) + 1,
                                         live_contexts := live_contexts (heap (unprepare r)) + 1\<rparr> \<and>
         heap (unprepare r1) = heap (unprepare r) \<and>
         heap r2 = (heap (unprepare r))\<lparr>live_buffers := live_buffers (heap (unprepare r)) + 1\<rparr> \<and>
         live_total (heap r2) = live_total (heap (unprepare r)) + 1"
proof -
  from r1 have p1: "parse_lines be lines (unprepare r) = Some r1" by (simp add: prepare_lines_def)
  have h1: "heap r1 = (heap (unprepare r))\<lparr>live_surfaces := live_surfaces (heap (unprepare r)) + 1,
                                         live_contexts := live_contexts (heap (unprepare r)) + 1\<rparr>"
    using parse_lines_prepared_heap[OF p1 _ t1] by simp
  from parse_lines_flags[OF p1] have i1: "\<not> m_prepared_from_image r1" by simp
  have hu: "heap (unprepare r1) = heap (unprepare r)"
    unfolding unprepare_heap[of r1] h1 using i1 t1 by simp
  from r2 sub have b: "make_subtitle_image_bitmap (width sub) (height sub) (image_data sub) (unprepare r1) = Some r2"
    by (simp add: prepare_def Let_def)
  from bitmap_flags[OF b] have t2: "\<not> m_prepared_from_text r2" by simp
  have h2: "heap r2 = (heap (unprepare r))\<lparr>live_buffers := live_buffers (heap (unprepare r)) + 1\<rparr>"
    using bitmap_accepted_heap[OF b _ i2] hu by simp
  have "live_total (heap r2) = live_total (heap (unprepare r)) + 1"
    unfolding h2 by (simp add: live_total_def)
  with t2 h1 hu h2 show ?thesis by blast
qed

lemma text_frame_1080:
  "\<exists>r1. prepare_lines backend_100 [''x''] renderer_1080 = Some r1 \<and> m_prepared_from_text r1 \<and>
        \<not> m_prepared_from_image r1 \<and> geom r1 = geom renderer_1080 \<and>
        heap r1 = empty_heap\<lparr>live_surfaces := 1, live_contexts := 1\<rparr>"
proof -
  let ?pl = "[[mk_SubtitleText ''x'' NORMAL_FONT (- 1)]]"
  let ?r1 = "make_subtitle_image_text backend_100 ?pl renderer_1080"
  have u: "unprepare renderer_1080 = renderer_1080"
    by (simp add: unprepare_def renderer_1080_def new_renderer_def)
  have p: "prepare_lines backend_100 [''x''] renderer_1080 = Some ?r1"
    by (simp add: prepare_lines_def parse_lines_def single_line_parsed u)
  have ok: "list_all (shapes_all backend_100) (take (no_of_lines ?pl renderer_1080) ?pl)"
  proof -
    have a: "\<And>l. shapes_all backend_100 l"
      by (simp add: shapes_all_def backend_100_def list_all_iff)
    show ?thesis unfolding list_all_iff using a by blast
  qed
  note t = make_subtitle_image_text_result[of backend_100 ?pl renderer_1080]
  from t ok have f: "m_prepared_from_text ?r1" "\<not> m_prepared_from_image ?r1"
    "geom ?r1 = geom renderer_1080"
    by (simp_all add: renderer_1080_def new_renderer_def)
  have h: "heap ?r1 = empty_heap\<lparr>live_surfaces := 1, live_contexts := 1\<rparr>"
  proof -
    have pl: "parse_lines backend_100 [''x''] renderer_1080 = Some ?r1"
      using p by (simp add: prepare_lines_def u)
    have nt: "\<not> m_prepared_from_text renderer_1080"
      by (simp add: renderer_1080_def new_renderer_def)
    have hh: "heap renderer_1080 = empty_heap"
      by (simp add: renderer_1080_def new_renderer_def)
    show ?thesis
      unfolding parse_lines_prepared_heap[OF pl nt f(1)] hh by (simp add: empty_heap_def)
  qed
  from p f h show ?thesis by blast
qed

text \<open>
  The path the claim describes, when the text is shaped and the bitmap is accepted: the
  text frame is released and the buffer of the bitmap is the one allocation left.
\<close>

lemma text_then_small_bitmap:
  "\<exists>r1 r2. prepare_lines backend_100 [''x''] renderer_1080 = Some r1 \<and>
           m_prepared_from_text r1 \<and>
           isImage small_bitmap \<and> prepare backend_100 small_bitmap r1 = Some r2 \<and>
           m_prepared_from_image r2 \<and> \<not> m_prepared_from_text r2 \<and>
           live_total (heap r2) = 1"
proof -
  from text_frame_1080 obtain r1 where
    r1: "prepare_lines backend_100 [''x''] renderer_1080 = Some r1" "m_prepared_from_text r1"
      "\<not> m_prepared_from_image r1" "geom r1 = geom renderer_1080"
    by blast
  have g: "geom r1 =
     \<lparr>m_centered = True, m_ghost_box = True, m_max_lines = 3, m_font_size = 59,
      m_padding = 14, m_image_width = 1808, m_image_height = 224,
      left_margin = 56, top_margin = 820, left_aligned_margin = 254,
      m_scaled_image_width = 643, m_scaled_image_height = 113, m_scaled_padding = 7\<rparr>"
    unfolding r1(4) by (simp add: renderer_1080_def new_renderer_def geometry_1080)
  define r2 where "r2 = the (prepare backend_100 small_bitmap r1)"
  have p: "prepare backend_100 small_bitmap r1 = Some r2 \<and> m_prepared_from_image r2"
    unfolding r2_def
    by (simp add: prepare_def small_bitmap_def make_subtitle_image_bitmap_def g Let_def
        left_padding_def right_padding_def top_padding_def signed_divide_int_def src_read_def)
  have i: "isImage small_bitmap" by (simp add: small_bitmap_def)
  have u: "live_total (heap (unprepare renderer_1080)) = 0"
    by (simp add: unprepare_def renderer_1080_def new_renderer_def empty_heap_def live_total_def)
  from text_then_bitmap[of backend_100 "[''x'']" renderer_1080 r1 small_bitmap r2] r1(1,2) i p
  have "\<not> m_prepared_from_text r2 \<and> live_total (heap r2) = live_total (heap (unprepare renderer_1080)) + 1"
    by blast
  with r1(1,2) i p u show ?thesis by auto
qed

lemma invalid_single_line_parsed:
  "formatted_lines [[CHR 0xFF]] = Some [[mk_SubtitleText [CHR 0xFF] NORMAL_FONT (- 1)]]"
  by (simp add: parse_eval)

text \<open>
  C8 (evaluation at the failing input). A renderer for a 1920 by 1080 screen that holds
  no allocation is given a text of one line that the backend cannot shape (the byte
  \<open>0xFF\<close>, not valid UTF-8) and then, with no \<^verbatim>\<open>show_next\<close> in between, a bitmap
  3 wide and 1 high. The text layout has created its surface and its context when the
  shaping fails, and returns without destroying them and without setting
  \<^verbatim>\<open>m_prepared_from_text\<close>; the \<^verbatim>\<open>unprepare\<close> of the second \<^verbatim>\<open>prepare\<close>
  therefore releases nothing. After the bitmap is accepted the two flags are still
  exclusive, but three allocations are held (surface, context and the buffer of the
  bitmap), not exactly one.
\<close>

theorem text_failure_then_bitmap_leaks:
  "reachable backend_utf8 (geom renderer_1080) renderer_1080 \<and>
   live_total (heap renderer_1080) = 0 \<and>
   map_option (\<lambda>r. (m_prepared_from_image r, m_prepared_from_text r, heap r))
     (prepare_lines backend_utf8 [[CHR 0xFF]] renderer_1080) =
     Some (False, False,
           \<lparr>live_surfaces = 1, live_contexts = 1, live_glyph_arrays = 0, live_buffers = 0\<rparr>) \<and>
   isImage small_bitmap \<and>
   map_option (\<lambda>r. (m_prepared_from_image r, m_prepared_from_text r, heap r, live_total (heap r)))
     (Option.bind (prepare_lines backend_utf8 [[CHR 0xFF]] renderer_1080)
        (prepare backend_utf8 small_bitmap)) =
     Some (True, False,
           \<lparr>live_surfaces = 1, live_contexts = 1, live_glyph_arrays = 0, live_buffers = 1\<rparr>, 3)"
proof -
  have rn: "reachable backend_utf8 (geom renderer_1080) renderer_1080"
    using reachable_new[of backend_utf8 "geom renderer_1080"]
    by (simp add: renderer_1080_def new_renderer_def)
  have h0: "live_total (heap renderer_1080) = 0"
    by (simp add: renderer_1080_def new_renderer_def empty_heap_def live_total_def)
  have i: "isImage small_bitmap" by (simp add: small_bitmap_def)
  have a: "map_option (\<lambda>r. (m_prepared_from_image r, m_prepared_from_text r, heap r))
     (prepare_lines backend_utf8 [[CHR 0xFF]] renderer_1080) =
     Some (False, False,
           \<lparr>live_surfaces = 1, live_contexts = 1, live_glyph_arrays = 0, live_buffers = 0\<rparr>)"
    by (simp add: invalid_single_line_parsed prepare_lines_def parse_lines_def unprepare_def
        layout_eval backend_utf8_def renderer_1080_def new_renderer_def geometry_1080
        numeral_2_eq_2 numeral_3_eq_3 empty_heap_def)
  have b: "map_option (\<lambda>r. (m_prepared_from_image r, m_prepared_from_text r, heap r, live_total (heap r)))
     (Option.bind (prepare_lines backend_utf8 [[CHR 0xFF]] renderer_1080)
        (prepare backend_utf8 small_bitmap)) =
     Some (True, False,
           \<lparr>live_surfaces = 1, live_contexts = 1, live_glyph_arrays = 0, live_buffers = 1\<rparr>, 3)"
    by (simp add: invalid_single_line_parsed prepare_lines_def parse_lines_def unprepare_def
        layout_eval backend_utf8_def renderer_1080_def new_renderer_def geometry_1080
        numeral_2_eq_2 numeral_3_eq_3 empty_heap_def prepare_def small_bitmap_def
        make_subtitle_image_bitmap_def left_padding_def right_padding_def top_padding_def
        src_read_def live_total_def)
  from rn h0 a i b show ?thesis by blast
qed

end
